theory Spec2Isabelle
  imports Main "HOL-Library.Word"
begin

unbundle bit_operations_syntax

section \<open>The nRF52 flash driver (src/flash/nor/nrf52.c)\<close>

text \<open>
  The driver talks to the chip only through the debug target layer
  (\<^verbatim>\<open>target_read_u32\<close>, \<^verbatim>\<open>target_write_u32\<close>, \<^verbatim>\<open>target_read_memory\<close>, ...).
  That layer is not part of the driver, so it is a parameter of the model: a
  \<^emph>\<open>target\<close> answers every request of the driver, and its answer may depend on
  everything the driver has asked before.  The driver's functions thread the
  log of requests and return codes; all observable behaviour of the driver
  (which registers it polls, what it erases, what it flashes, in which order)
  is read off that log.
\<close>

subsection \<open>Machine words, return codes, register addresses\<close>

type_synonym u32 = "32 word"
type_synonym u8 = "8 word"

text \<open>Return codes of OpenOCD (helper/log.h, flash/common.h, target/target.h).\<close>

definition ERROR_OK :: int where "ERROR_OK = 0"
definition ERROR_FAIL :: int where "ERROR_FAIL = - 4"
definition ERROR_TARGET_RESOURCE_NOT_AVAILABLE :: int where
  "ERROR_TARGET_RESOURCE_NOT_AVAILABLE = - 308"
definition ERROR_FLASH_SECTOR_INVALID :: int where "ERROR_FLASH_SECTOR_INVALID = - 901"
definition ERROR_FLASH_BUSY :: int where "ERROR_FLASH_BUSY = - 905"
definition ERROR_FLASH_BANK_NOT_PROBED :: int where "ERROR_FLASH_BANK_NOT_PROBED = - 907"

definition NRF52_FLASH_BASE_ADDR :: u32 where "NRF52_FLASH_BASE_ADDR = 0x0"
definition NRF52_FICR_BASE_ADDR :: u32 where "NRF52_FICR_BASE_ADDR = 0x10000000"
definition NRF52_FICR_CODEPAGESIZE_ADDR :: u32 where
  "NRF52_FICR_CODEPAGESIZE_ADDR = NRF52_FICR_BASE_ADDR OR 0x010"
definition NRF52_FICR_CODESIZE_ADDR :: u32 where
  "NRF52_FICR_CODESIZE_ADDR = NRF52_FICR_BASE_ADDR OR 0x014"
definition NRF52_UICR_BASE_ADDR :: u32 where "NRF52_UICR_BASE_ADDR = 0x10001000"
definition NRF52_NVMC_BASE_ADDR :: u32 where "NRF52_NVMC_BASE_ADDR = 0x4001E000"
definition NRF52_NVMC_READY_ADDR :: u32 where
  "NRF52_NVMC_READY_ADDR = NRF52_NVMC_BASE_ADDR OR 0x400"
definition NRF52_NVMC_CONFIG_ADDR :: u32 where
  "NRF52_NVMC_CONFIG_ADDR = NRF52_NVMC_BASE_ADDR OR 0x504"
definition NRF52_NVMC_ERASEPAGE_ADDR :: u32 where
  "NRF52_NVMC_ERASEPAGE_ADDR = NRF52_NVMC_BASE_ADDR OR 0x508"
definition NRF52_NVMC_ERASEALL_ADDR :: u32 where
  "NRF52_NVMC_ERASEALL_ADDR = NRF52_NVMC_BASE_ADDR OR 0x50C"
definition NRF52_NVMC_ERASEUICR_ADDR :: u32 where
  "NRF52_NVMC_ERASEUICR_ADDR = NRF52_NVMC_BASE_ADDR OR 0x514"

text \<open>\<^verbatim>\<open>enum nrf52_nvmc_config_bits\<close> and \<^verbatim>\<open>enum nrf52_nvmc_ready_bits\<close>.\<close>

definition NRF52_NVMC_CONFIG_REN :: u32 where "NRF52_NVMC_CONFIG_REN = 0x0"
definition NRF52_NVMC_CONFIG_WEN :: u32 where "NRF52_NVMC_CONFIG_WEN = 0x01"
definition NRF52_NVMC_CONFIG_EEN :: u32 where "NRF52_NVMC_CONFIG_EEN = 0x02"
definition NRF52_NVMC_BUSY :: u32 where "NRF52_NVMC_BUSY = 0x0"
definition NRF52_NVMC_READY :: u32 where "NRF52_NVMC_READY = 0x01"

subsection \<open>The target layer as a parameter\<close>

text \<open>
  One constructor per primitive the driver calls.  \<open>Read_memory a size count\<close>
  and \<open>Write_memory a size count bytes\<close> are \<^verbatim>\<open>target_read_memory\<close> and
  \<^verbatim>\<open>target_write_memory\<close>; \<open>Run_flash_async_algorithm\<close> carries the data
  buffer, the block count and block size, the four register parameters
  r0..r3, the FIFO area (address, size) and the entry point of the loader.
  \<open>Host_calloc n\<close> is the host's \<^verbatim>\<open>calloc\<close> of the sector array, which may
  fail as well.
\<close>

datatype request =
    Read_u32 u32
  | Write_u32 u32 u32
  | Read_memory u32 nat nat
  | Write_memory u32 nat nat "u8 list"
  | Write_buffer u32 nat "u8 list"
  | Alloc_working_area nat
  | Free_working_area u32 nat
  | Run_flash_async_algorithm "u8 list" nat nat "u32 list" u32 nat u32
  | Alive_sleep nat
  | Host_calloc int

text \<open>
  A reply holds the return code, the word a read delivers (or the address of
  an allocated working area) and the bytes a memory read delivers.
\<close>

datatype reply = Reply (rcode: int) (rval: u32) (rdata: "u8 list")

type_synonym event = "request \<times> int"
type_synonym log = "event list"
type_synonym target = "log \<Rightarrow> request \<Rightarrow> reply"

definition call :: "target \<Rightarrow> request \<Rightarrow> log \<Rightarrow> reply \<times> log" where
  "call tgt rq lg = (let r = tgt lg rq in (r, lg @ [(rq, rcode r)]))"

definition target_read_u32 :: "target \<Rightarrow> u32 \<Rightarrow> log \<Rightarrow> int \<times> u32 \<times> log" where
  "target_read_u32 tgt address lg =
     (let (r, lg1) = call tgt (Read_u32 address) lg in (rcode r, rval r, lg1))"

definition target_write_u32 :: "target \<Rightarrow> u32 \<Rightarrow> u32 \<Rightarrow> log \<Rightarrow> int \<times> log" where
  "target_write_u32 tgt address v lg =
     (let (r, lg1) = call tgt (Write_u32 address v) lg in (rcode r, lg1))"

text \<open>A memory read fills exactly \<open>size * count\<close> bytes of the caller's buffer.\<close>

definition fit :: "nat \<Rightarrow> u8 list \<Rightarrow> u8 list" where
  "fit n xs = take n xs @ replicate (n - length xs) 0"

definition target_read_memory ::
  "target \<Rightarrow> u32 \<Rightarrow> nat \<Rightarrow> nat \<Rightarrow> log \<Rightarrow> int \<times> u8 list \<times> log" where
  "target_read_memory tgt address sz cnt lg =
     (let (r, lg1) = call tgt (Read_memory address sz cnt) lg
      in (rcode r, fit (sz * cnt) (rdata r), lg1))"

definition target_write_memory ::
  "target \<Rightarrow> u32 \<Rightarrow> nat \<Rightarrow> nat \<Rightarrow> u8 list \<Rightarrow> log \<Rightarrow> int \<times> log" where
  "target_write_memory tgt address sz cnt buffer lg =
     (let (r, lg1) = call tgt (Write_memory address sz cnt (take (sz * cnt) buffer)) lg
      in (rcode r, lg1))"

definition target_write_buffer ::
  "target \<Rightarrow> u32 \<Rightarrow> nat \<Rightarrow> u8 list \<Rightarrow> log \<Rightarrow> int \<times> log" where
  "target_write_buffer tgt address sz buffer lg =
     (let (r, lg1) = call tgt (Write_buffer address sz (take sz buffer)) lg
      in (rcode r, lg1))"

definition alive_sleep :: "nat \<Rightarrow> log \<Rightarrow> log" where
  "alive_sleep ms lg = lg @ [(Alive_sleep ms, ERROR_OK)]"

subsection \<open>Observations on the log\<close>

text \<open>How often a request was issued.\<close>

definition count_req :: "request \<Rightarrow> log \<Rightarrow> nat" where
  "count_req rq lg = length (filter (\<lambda>e. fst e = rq) lg)"

text \<open>
  The mode of the NVMC: the value of the last write to its CONFIG register
  that the target accepted.
\<close>

fun mode_step :: "u32 option \<Rightarrow> event \<Rightarrow> u32 option" where
  "mode_step m (Write_u32 a v, rc) =
     (if a = NRF52_NVMC_CONFIG_ADDR \<and> rc = ERROR_OK then Some v else m)"
| "mode_step m (_, rc) = m"

definition nvmc_mode :: "log \<Rightarrow> u32 option" where
  "nvmc_mode lg = foldl mode_step None lg"

subsection \<open>The NVMC controller\<close>

text \<open>
  \<^verbatim>\<open>nrf52_wait_for_nvmc\<close>: \<^verbatim>\<open>int timeout = 100; do { ... } while (timeout--);\<close>.
  The counter only takes the values 100 down to 0, so it is a \<open>nat\<close>; the
  post-decrement tests the value before it is decremented.
\<close>

fun wait_loop :: "target \<Rightarrow> nat \<Rightarrow> log \<Rightarrow> int \<times> log" where
  "wait_loop tgt timeout lg =
     (let (res, ready, lg1) = target_read_u32 tgt NRF52_NVMC_READY_ADDR lg in
      if res \<noteq> ERROR_OK then (res, lg1)
      else if ready = NRF52_NVMC_READY then (ERROR_OK, lg1)
      else
        let lg2 = alive_sleep 1 lg1 in
        if timeout \<noteq> 0 then wait_loop tgt (timeout - 1) lg2
        else (ERROR_FLASH_BUSY, lg2))"

definition nrf52_wait_for_nvmc :: "target \<Rightarrow> log \<Rightarrow> int \<times> log" where
  "nrf52_wait_for_nvmc tgt lg = wait_loop tgt 100 lg"

definition nrf52_nvmc_erase_enable :: "target \<Rightarrow> log \<Rightarrow> int \<times> log" where
  "nrf52_nvmc_erase_enable tgt lg =
     (let (res, lg1) = nrf52_wait_for_nvmc tgt lg in
      if res \<noteq> ERROR_OK then (res, lg1)
      else target_write_u32 tgt NRF52_NVMC_CONFIG_ADDR NRF52_NVMC_CONFIG_EEN lg1)"

definition nrf52_nvmc_write_enable :: "target \<Rightarrow> log \<Rightarrow> int \<times> log" where
  "nrf52_nvmc_write_enable tgt lg =
     (let (res, lg1) = nrf52_wait_for_nvmc tgt lg in
      if res \<noteq> ERROR_OK then (res, lg1)
      else target_write_u32 tgt NRF52_NVMC_CONFIG_ADDR NRF52_NVMC_CONFIG_WEN lg1)"

definition nrf52_nvmc_read_only :: "target \<Rightarrow> log \<Rightarrow> int \<times> log" where
  "nrf52_nvmc_read_only tgt lg =
     (let (res, lg1) = nrf52_wait_for_nvmc tgt lg in
      if res \<noteq> ERROR_OK then (res, lg1)
      else target_write_u32 tgt NRF52_NVMC_CONFIG_ADDR NRF52_NVMC_CONFIG_REN lg1)"

text \<open>
  \<^verbatim>\<open>nrf52_nvmc_generic_erase\<close>: the result of the trigger write is only
  logged; the function returns what \<^verbatim>\<open>nrf52_nvmc_read_only\<close> returns.
\<close>

definition nrf52_nvmc_generic_erase :: "target \<Rightarrow> u32 \<Rightarrow> u32 \<Rightarrow> log \<Rightarrow> int \<times> log" where
  "nrf52_nvmc_generic_erase tgt erase_register erase_value lg =
     (let (res, lg1) = nrf52_nvmc_erase_enable tgt lg in
      if res \<noteq> ERROR_OK then (res, lg1)
      else
        let (res, lg2) = target_write_u32 tgt erase_register erase_value lg1 in
        nrf52_nvmc_read_only tgt lg2)"

subsection \<open>Sectors, banks and the chip\<close>

text \<open>
  \<^verbatim>\<open>struct flash_sector\<close> and \<^verbatim>\<open>struct flash_bank\<close> of the flash core, with the
  fields the driver uses, and \<^verbatim>\<open>struct nrf52_info\<close>.  \<open>is_erased\<close> and
  \<open>is_protected\<close> are 1 (yes), 0 (no) or -1 (unknown).  A pointer to a sector
  of the bank is its index in \<open>sectors\<close>.
\<close>

record flash_sector =
  sec_offset :: u32
  sec_size :: u32
  is_erased :: int
  is_protected :: int

record flash_bank =
  bank_base :: u32
  bank_size :: u32
  num_sectors :: int
  sectors :: "flash_sector list"
  bank_number :: nat

record nrf52_info =
  code_page_size :: u32
  code_memory_size :: u32
  probed0 :: bool
  probed1 :: bool

text \<open>
  A call either returns a code, or does not return: an \<^verbatim>\<open>assert\<close> fails, or the
  C program leaves defined behaviour (division by zero, a copy past the end of
  an array, a sector pointer into an empty array).
\<close>

datatype status = Returned int | Aborted

definition set_erased :: "flash_bank \<Rightarrow> nat \<Rightarrow> flash_bank" where
  "set_erased bank i =
     bank\<lparr>sectors := (sectors bank)[i := (sectors bank ! i)\<lparr>is_erased := 1\<rparr>]\<rparr>"

text \<open>\<^verbatim>\<open>nrf52_protect_check\<close> only logs a warning.\<close>

definition nrf52_protect_check :: "flash_bank \<Rightarrow> int" where
  "nrf52_protect_check bank = ERROR_OK"

text \<open>
  \<^verbatim>\<open>nrf52_find_sector_by_address\<close>: the first sector \<open>i < num_sectors\<close> with
  \<open>offset \<le> address < offset + code_page_size\<close>, in 32-bit arithmetic.
\<close>

fun find_sector :: "u32 \<Rightarrow> u32 \<Rightarrow> flash_sector list \<Rightarrow> nat \<Rightarrow> nat option" where
  "find_sector ps address [] i = None"
| "find_sector ps address (s # ss) i =
     (if sec_offset s \<le> address \<and> address < sec_offset s + ps then Some i
      else find_sector ps address ss (Suc i))"

definition nrf52_find_sector_by_address ::
  "nrf52_info \<Rightarrow> flash_bank \<Rightarrow> u32 \<Rightarrow> nat option" where
  "nrf52_find_sector_by_address chip bank address =
     find_sector (code_page_size chip) address
       (take (nat (num_sectors bank)) (sectors bank)) 0"

definition nrf52_erase_all :: "target \<Rightarrow> log \<Rightarrow> int \<times> log" where
  "nrf52_erase_all tgt lg = nrf52_nvmc_generic_erase tgt NRF52_NVMC_ERASEALL_ADDR 0x01 lg"

definition nrf52_erase_page ::
  "target \<Rightarrow> flash_bank \<Rightarrow> nat \<Rightarrow> log \<Rightarrow> int \<times> flash_bank \<times> log" where
  "nrf52_erase_page tgt bank i lg =
     (let sector = sectors bank ! i in
      if is_protected sector = 1 then (ERROR_FAIL, bank, lg)
      else
        let (res, lg1) =
          (if bank_base bank = NRF52_UICR_BASE_ADDR
           then nrf52_nvmc_generic_erase tgt NRF52_NVMC_ERASEUICR_ADDR 0x00000001 lg
           else nrf52_nvmc_generic_erase tgt NRF52_NVMC_ERASEPAGE_ADDR (sec_offset sector) lg)
        in (res, if res = ERROR_OK then set_erased bank i else bank, lg1))"

subsection \<open>The bulk write\<close>

text \<open>The loader program \<^verbatim>\<open>nrf52_flash_write_code\<close> (contrib/loaders/flash/cortex-m0.S).\<close>

definition nrf52_flash_write_code :: "u8 list" where
  "nrf52_flash_write_code =
     [0x0d, 0x68, 0x00, 0x2d, 0x0b, 0xd0, 0x4c, 0x68, 0xac, 0x42, 0xf9, 0xd0,
      0x20, 0xcc, 0x20, 0xc3, 0x94, 0x42, 0x01, 0xd3, 0x0c, 0x46, 0x08, 0x34,
      0x4c, 0x60, 0x04, 0x38, 0xf0, 0xd1, 0x00, 0xbe]"

text \<open>
  The slow path \<^verbatim>\<open>for (; bytes > 0; bytes -= 4)\<close>.  \<^verbatim>\<open>nrf52_ll_flash_write\<close>
  asserts \<open>bytes % 4 == 0\<close> before the loop; the assertion stays true while the
  loop runs and is what makes \<open>bytes\<close> reach 0, so the loop carries it as its
  guard.
\<close>

lemma mod4_ge: "bytes mod 4 = 0 \<Longrightarrow> 0 < bytes \<Longrightarrow> 4 \<le> (bytes :: u32)"
proof -
  assume a: "bytes mod 4 = 0" and b: "0 < bytes"
  have "unat (bytes mod 4) = unat bytes mod 4" by (simp add: unat_mod)
  with a have "unat bytes mod 4 = 0" by simp
  moreover from b have "0 < unat bytes" by (simp add: word_less_nat_alt)
  ultimately have "4 \<le> unat bytes" by presburger
  then show ?thesis by (simp add: word_le_nat_alt)
qed

lemma unat_sub4: "bytes mod 4 = 0 \<Longrightarrow> 0 < bytes \<Longrightarrow> unat (bytes - 4) = unat (bytes :: u32) - 4"
  using mod4_ge[of bytes] by (simp add: unat_sub word_le_nat_alt)

function slow_write :: "target \<Rightarrow> u32 \<Rightarrow> u8 list \<Rightarrow> u32 \<Rightarrow> log \<Rightarrow> status \<times> log" where
  "slow_write tgt offset buffer bytes lg =
     (if bytes mod 4 \<noteq> 0 then (Aborted, lg)
      else if bytes > 0 then
        let (retval, lg1) = target_write_memory tgt offset 4 1 buffer lg in
        if retval \<noteq> ERROR_OK then (Returned retval, lg1)
        else
          let (retval, lg2) = nrf52_wait_for_nvmc tgt lg1 in
          if retval \<noteq> ERROR_OK then (Returned retval, lg2)
          else slow_write tgt (offset + 4) (drop 4 buffer) (bytes - 4) lg2
      else (Returned ERROR_OK, lg))"
  by pat_completeness auto
termination
proof (relation "measure (\<lambda>(tgt, offset, buffer, bytes, lg). unat bytes)")
  show "wf (measure (\<lambda>(tgt, offset, buffer, bytes, lg). unat bytes))" by simp
next
  fix tgt :: target and offset :: u32 and buffer :: "u8 list" and bytes :: u32
    and lg :: log and x xa y xb xc ya
  assume "\<not> bytes mod 4 \<noteq> 0" and "0 < bytes"
  then have "unat (bytes - 4) = unat bytes - 4" and "4 \<le> bytes"
    by (simp_all add: unat_sub4 mod4_ge)
  then show "((tgt, offset + 4, drop 4 buffer, bytes - 4, ya), tgt, offset, buffer, bytes, lg)
      \<in> measure (\<lambda>(tgt, offset, buffer, bytes, lg). unat bytes)"
    by (simp add: word_le_nat_alt)
qed

text \<open>
  The second working area: \<^verbatim>\<open>while (target_alloc_working_area(target, buffer_size, &source) != ERROR_OK)\<close>,
  which halves \<open>buffer_size\<close> and gives up at 256 bytes.  The result is the
  address of the area and its size, or \<open>None\<close>.
\<close>

lemma halved_size_less:
  "256 < (x div 2) AND m \<Longrightarrow> unat ((x div 2) AND m) < unat (x :: u32)"
proof -
  assume a: "256 < (x div 2) AND m"
  have "(x div 2) AND m \<le> x div 2" by (rule word_and_le2)
  then have le: "unat ((x div 2) AND m) \<le> unat x div 2"
    by (simp add: word_le_nat_alt unat_div)
  from a have "256 < unat ((x div 2) AND m)" by (simp add: word_less_nat_alt)
  with le show ?thesis by linarith
qed

function alloc_source :: "target \<Rightarrow> u32 \<Rightarrow> log \<Rightarrow> (u32 \<times> u32) option \<times> log" where
  "alloc_source tgt buffer_size lg =
     (let (r, lg1) = call tgt (Alloc_working_area (unat buffer_size)) lg in
      if rcode r = ERROR_OK then (Some (rval r, buffer_size), lg1)
      else
        let buffer_size = (buffer_size div 2) AND NOT 3 in
        if buffer_size \<le> 256 then (None, lg1)
        else alloc_source tgt buffer_size lg1)"
  by pat_completeness auto
termination
  by (relation "measure (\<lambda>(tgt, buffer_size, lg). unat buffer_size)")
     (simp_all add: halved_size_less not_le)

definition target_free_working_area :: "target \<Rightarrow> u32 \<Rightarrow> nat \<Rightarrow> log \<Rightarrow> log" where
  "target_free_working_area tgt address sz lg = snd (call tgt (Free_working_area address sz) lg)"

text \<open>
  \<^verbatim>\<open>nrf52_ll_flash_write\<close>.  \<open>buffer\<close> holds at least \<open>bytes\<close> bytes.  The four
  register parameters are the byte count, the start and the end of the FIFO
  area, and the flash address.
\<close>

definition nrf52_ll_flash_write ::
  "target \<Rightarrow> u32 \<Rightarrow> u8 list \<Rightarrow> u32 \<Rightarrow> log \<Rightarrow> status \<times> log" where
  "nrf52_ll_flash_write tgt offset buffer bytes lg =
     (let address = NRF52_FLASH_BASE_ADDR + offset in
      if bytes mod 4 \<noteq> 0 then (Aborted, lg)
      else
        let (r, lg1) = call tgt (Alloc_working_area (length nrf52_flash_write_code)) lg in
        if rcode r \<noteq> ERROR_OK then slow_write tgt offset buffer bytes lg1
        else
          let write_algorithm = rval r;
              (retval, lg2) = target_write_buffer tgt write_algorithm
                 (length nrf52_flash_write_code) nrf52_flash_write_code lg1
          in
          if retval \<noteq> ERROR_OK then (Returned retval, lg2)
          else
            (case alloc_source tgt 8192 lg2 of
               (None, lg3) \<Rightarrow>
                 (Returned ERROR_TARGET_RESOURCE_NOT_AVAILABLE,
                  target_free_working_area tgt write_algorithm
                    (length nrf52_flash_write_code) lg3)
             | (Some (source, area_size), lg3) \<Rightarrow>
                 let reg_params = [bytes, source, source + area_size, address];
                     (r, lg4) = call tgt
                       (Run_flash_async_algorithm (take (unat bytes) buffer)
                          (unat (bytes div 4)) 4 reg_params source (unat area_size)
                          write_algorithm) lg3;
                     lg5 = target_free_working_area tgt source (unat area_size) lg4;
                     lg6 = target_free_working_area tgt write_algorithm
                       (length nrf52_flash_write_code) lg5
                 in (Returned (rcode r), lg6)))"

subsection \<open>The page writer\<close>

text \<open>
  \<^verbatim>\<open>nrf52_write_pages\<close> asserts that \<open>start\<close> and \<open>end\<close> are multiples of the
  page size (the remainder by a page size of 0 is undefined).
\<close>

definition pages_aligned :: "nrf52_info \<Rightarrow> u32 \<Rightarrow> u32 \<Rightarrow> bool" where
  "pages_aligned chip start end' \<longleftrightarrow>
     code_page_size chip \<noteq> 0 \<and> start mod code_page_size chip = 0 \<and>
     end' mod code_page_size chip = 0"

lemma aligned_next_page:
  fixes ps offset end' :: u32
  assumes "ps \<noteq> 0" and "offset mod ps = 0" and "end' mod ps = 0" and "offset < end'"
  shows "unat (offset + ps) = unat offset + unat ps" and "unat offset + unat ps \<le> unat end'"
proof -
  have p: "0 < unat ps" using assms(1) by (simp add: unat_gt_0)
  have "unat (offset mod ps) = unat offset mod unat ps" "unat (end' mod ps) = unat end' mod unat ps"
    by (simp_all add: unat_mod)
  with assms(2,3) have d: "unat ps dvd unat offset" "unat ps dvd unat end'"
    by (simp_all add: dvd_eq_mod_eq_0)
  then obtain j k where jk: "unat offset = unat ps * j" "unat end' = unat ps * k"
    by (auto simp: dvd_def)
  from assms(4) have "unat offset < unat end'" by (simp add: word_less_nat_alt)
  with jk p have "j < k" by simp
  then have "Suc j \<le> k" by simp
  then have "unat ps * Suc j \<le> unat ps * k" by (rule mult_le_mono2)
  with jk show le: "unat offset + unat ps \<le> unat end'" by simp
  have "unat end' < 2 ^ 32" using unsigned_less[of end', where 'a = nat] by simp
  with le have "unat offset + unat ps < 2 ^ 32" by simp
  then show "unat (offset + ps) = unat offset + unat ps"
    using unat_add_lem[of offset ps] by simp
qed

text \<open>
  The loop \<^verbatim>\<open>for (offset = start; offset < end; offset += chip->code_page_size)\<close>
  of \<^verbatim>\<open>nrf52_write_pages\<close>.  The assertions of \<^verbatim>\<open>nrf52_write_pages\<close> hold for
  \<open>offset\<close> and \<open>end\<close> throughout the loop and keep \<open>offset\<close> from wrapping
  around; the loop carries them as its guard.  \<open>Returned ERROR_OK\<close> means that
  the loop ran to its end.
\<close>

function erase_pages ::
  "target \<Rightarrow> nrf52_info \<Rightarrow> flash_bank \<Rightarrow> u32 \<Rightarrow> u32 \<Rightarrow> log \<Rightarrow> status \<times> flash_bank \<times> log" where
  "erase_pages tgt chip bank offset end' lg =
     (if \<not> pages_aligned chip offset end' then (Aborted, bank, lg)
      else if offset < end' then
        (case nrf52_find_sector_by_address chip bank offset of
           None \<Rightarrow> (Returned ERROR_FLASH_SECTOR_INVALID, bank, lg)
         | Some i \<Rightarrow>
             if is_protected (sectors bank ! i) = 1 then (Returned ERROR_FAIL, bank, lg)
             else
               let (res, bank1, lg1) =
                 (if is_erased (sectors bank ! i) \<noteq> 1 then nrf52_erase_page tgt bank i lg
                  else (ERROR_OK, bank, lg))
               in
               if res \<noteq> ERROR_OK then (Returned res, bank1, lg1)
               else erase_pages tgt chip (set_erased bank1 i)
                      (offset + code_page_size chip) end' lg1)
      else (Returned ERROR_OK, bank, lg))"
  by pat_completeness auto
termination
proof (relation "measure (\<lambda>(tgt, chip, bank, offset, end', lg). unat end' - unat offset)")
  show "wf (measure (\<lambda>(tgt, chip, bank, offset, end', lg). unat end' - unat offset))" by simp
next
  fix tgt :: target and chip :: nrf52_info and bank :: flash_bank and offset end' :: u32
    and lg :: log and x2 x xa y xb ya
  assume "\<not> \<not> pages_aligned chip offset end'" and lt: "offset < end'"
  then have a: "code_page_size chip \<noteq> 0" "offset mod code_page_size chip = 0"
      "end' mod code_page_size chip = 0"
    by (simp_all add: pages_aligned_def)
  have "0 < unat (code_page_size chip)" using a(1) by (simp add: unat_gt_0)
  with aligned_next_page[OF a lt] show "((tgt, chip, set_erased xa x2, offset + code_page_size chip, end', ya),
       tgt, chip, bank, offset, end', lg)
      \<in> measure (\<lambda>(tgt, chip, bank, offset, end', lg). unat end' - unat offset)"
    by simp
qed

definition nrf52_write_pages ::
  "target \<Rightarrow> nrf52_info \<Rightarrow> flash_bank \<Rightarrow> u32 \<Rightarrow> u32 \<Rightarrow> u8 list \<Rightarrow> log
     \<Rightarrow> status \<times> flash_bank \<times> log" where
  "nrf52_write_pages tgt chip bank start end' buffer lg =
     (if \<not> pages_aligned chip start end' then (Aborted, bank, lg)
      else
        (case erase_pages tgt chip bank start end' lg of
           (Aborted, bank1, lg1) \<Rightarrow> (Aborted, bank1, lg1)
         | (Returned res, bank1, lg1) \<Rightarrow>
             if res \<noteq> ERROR_OK then (Returned res, bank1, lg1)
             else
               let (res, lg2) = nrf52_nvmc_write_enable tgt lg1 in
               if res \<noteq> ERROR_OK then (Returned res, bank1, lg2)
               else
                 (case nrf52_ll_flash_write tgt start buffer (end' - start) lg2 of
                    (Aborted, lg3) \<Rightarrow> (Aborted, bank1, lg3)
                  | (Returned res, lg3) \<Rightarrow>
                      if res \<noteq> ERROR_OK then
                        (Returned res, bank1, snd (nrf52_nvmc_read_only tgt lg3))
                      else
                        let (res, lg4) = nrf52_nvmc_read_only tgt lg3
                        in (Returned res, bank1, lg4))))"

subsection \<open>The two region drivers\<close>



text \<open>
  \<^verbatim>\<open>nrf52_uicr_flash_write\<close>.  \<open>sector\<close> is \<^verbatim>\<open>&bank->sectors[0]\<close>.  The bounds
  check is \<^verbatim>\<open>(offset + count) > nrf52_uicr_size\<close> on \<^verbatim>\<open>uint32_t\<close>;
  \<^verbatim>\<open>memcpy(&uicr[offset], buffer, count)\<close> stays inside \<open>uicr\<close> only if
  \<open>offset + count\<close>, without wrap-around, is at most the size of the array.
\<close>

definition nrf52_uicr_flash_write ::
  "target \<Rightarrow> nrf52_info \<Rightarrow> flash_bank \<Rightarrow> u8 list \<Rightarrow> u32 \<Rightarrow> u32 \<Rightarrow> log
     \<Rightarrow> status \<times> flash_bank \<times> log" where
  "nrf52_uicr_flash_write tgt chip bank buffer offset count lg =
     (let nrf52_uicr_size = code_page_size chip in
      if offset + count > nrf52_uicr_size then (Returned ERROR_FAIL, bank, lg)
      else
        let (res, uicr, lg1) =
          target_read_memory tgt NRF52_UICR_BASE_ADDR 1 (unat nrf52_uicr_size) lg
        in
        if res \<noteq> ERROR_OK then (Returned res, bank, lg1)
        else
          (case sectors bank of
             [] \<Rightarrow> (Aborted, bank, lg1)
           | sector # _ \<Rightarrow>
               let (res, bank1, lg2) =
                 (if is_erased sector \<noteq> 1 then nrf52_erase_page tgt bank 0 lg1
                  else (ERROR_OK, bank, lg1))
               in
               if res \<noteq> ERROR_OK then (Returned res, bank1, lg2)
               else if unat offset + unat count > unat nrf52_uicr_size
               then (Aborted, bank1, lg2)
               else
                 let uicr = take (unat offset) uicr @ take (unat count) buffer @
                            drop (unat offset + unat count) uicr;
                     (res, lg3) = nrf52_nvmc_write_enable tgt lg2
                 in
                 if res \<noteq> ERROR_OK then (Returned res, bank1, lg3)
                 else
                   (case nrf52_ll_flash_write tgt NRF52_UICR_BASE_ADDR uicr
                           nrf52_uicr_size lg3 of
                      (Aborted, lg4) \<Rightarrow> (Aborted, bank1, lg4)
                    | (Returned res, lg4) \<Rightarrow>
                        if res \<noteq> ERROR_OK then
                          (Returned res, bank1, snd (nrf52_nvmc_read_only tgt lg4))
                        else
                          let (res, lg5) = nrf52_nvmc_read_only tgt lg4
                          in (Returned res, bank1, lg5))))"

subsection \<open>Probing\<close>

text \<open>
  \<^verbatim>\<open>nrf52_probe\<close>.  \<^verbatim>\<open>target_read_u32\<close> stores through its pointer argument, so
  the chip keeps what the read delivered also when the read fails.
  \<open>num_sectors\<close> is an \<^verbatim>\<open>int\<close>: the quotient is converted from \<^verbatim>\<open>uint32_t\<close>.
  The division by a page size of 0 is undefined.
\<close>

definition code_sector :: "u32 \<Rightarrow> nat \<Rightarrow> flash_sector" where
  "code_sector ps i =
     \<lparr>sec_offset = of_nat i * ps, sec_size = ps, is_erased = - 1, is_protected = - 1\<rparr>"

definition nrf52_probe ::
  "target \<Rightarrow> nrf52_info \<Rightarrow> flash_bank \<Rightarrow> log \<Rightarrow> status \<times> nrf52_info \<times> flash_bank \<times> log" where
  "nrf52_probe tgt chip bank lg =
     (let (res, v, lg1) = target_read_u32 tgt NRF52_FICR_CODEPAGESIZE_ADDR lg;
          chip = chip\<lparr>code_page_size := v\<rparr>
      in
      if res \<noteq> ERROR_OK then (Returned res, chip, bank, lg1)
      else
        let (res, v, lg2) = target_read_u32 tgt NRF52_FICR_CODESIZE_ADDR lg1;
            chip = chip\<lparr>code_memory_size := v\<rparr>
        in
        if res \<noteq> ERROR_OK then (Returned res, chip, bank, lg2)
        else
          let chip = chip\<lparr>code_memory_size := code_memory_size chip * code_page_size chip\<rparr>
          in
          if bank_base bank = NRF52_FLASH_BASE_ADDR then
            let bank = bank\<lparr>bank_size := code_memory_size chip\<rparr> in
            if code_page_size chip = 0 then (Aborted, chip, bank, lg2)
            else
              let bank = bank\<lparr>num_sectors := sint (bank_size bank div code_page_size chip)\<rparr>;
                  (r, lg3) = call tgt (Host_calloc (num_sectors bank)) lg2
              in
              if rcode r \<noteq> ERROR_OK
              then (Returned ERROR_FLASH_BANK_NOT_PROBED, chip, bank\<lparr>sectors := []\<rparr>, lg3)
              else
                let bank = bank\<lparr>sectors :=
                      map (code_sector (code_page_size chip)) [0..<nat (num_sectors bank)]\<rparr>
                in (Returned ERROR_OK, chip\<lparr>probed0 := True\<rparr>, bank, lg3)
          else
            let bank = bank\<lparr>bank_size := code_page_size chip, num_sectors := 1\<rparr>;
                (r, lg3) = call tgt (Host_calloc (num_sectors bank)) lg2
            in
            if rcode r \<noteq> ERROR_OK
            then (Returned ERROR_FLASH_BANK_NOT_PROBED, chip, bank\<lparr>sectors := []\<rparr>, lg3)
            else
              let bank = bank\<lparr>sectors :=
                    [\<lparr>sec_offset = 0, sec_size = bank_size bank,
                      is_erased = - 1, is_protected = - 1\<rparr>]\<rparr>
              in (Returned ERROR_OK, chip\<lparr>probed1 := True\<rparr>, bank, lg3))"

section \<open>Vocabulary of the properties\<close>

subsection \<open>What a log shows\<close>

text \<open>
  The memory reads (address, number of bytes), the buffers handed to the
  loader, and the words written on the slow path (address, bytes), in the
  order of the log.
\<close>

fun read_of :: "event \<Rightarrow> (u32 \<times> nat) list" where
  "read_of (Read_memory a sz n, rc) = [(a, sz * n)]"
| "read_of (_, rc) = []"

definition mem_reads :: "log \<Rightarrow> (u32 \<times> nat) list" where
  "mem_reads lg = concat (map read_of lg)"

fun stream_of :: "event \<Rightarrow> u8 list list" where
  "stream_of (Run_flash_async_algorithm d n bs regs a sz entry, rc) = [d]"
| "stream_of (_, rc) = []"

definition streamed :: "log \<Rightarrow> u8 list list" where
  "streamed lg = concat (map stream_of lg)"

fun word_of :: "event \<Rightarrow> (u32 \<times> u8 list) list" where
  "word_of (Write_memory a sz n d, rc) = [(a, d)]"
| "word_of (_, rc) = []"

definition word_writes :: "log \<Rightarrow> (u32 \<times> u8 list) list" where
  "word_writes lg = concat (map word_of lg)"

text \<open>
  The writes to the page-erase trigger: the page and what the target
  answered, in the order of the log.
\<close>

fun erase_of :: "event \<Rightarrow> (u32 \<times> int) list" where
  "erase_of (Write_u32 a v, rc) = (if a = NRF52_NVMC_ERASEPAGE_ADDR then [(v, rc)] else [])"
| "erase_of (_, rc) = []"

definition page_erases :: "log \<Rightarrow> (u32 \<times> int) list" where
  "page_erases lg = concat (map erase_of lg)"

text \<open>
  The words the slow path writes for \<open>n\<close> words of \<open>buffer\<close> from \<open>offset\<close> on:
  four bytes at a time, at addresses four apart.
\<close>

fun word_chunks :: "u32 \<Rightarrow> u8 list \<Rightarrow> nat \<Rightarrow> (u32 \<times> u8 list) list" where
  "word_chunks offset buffer 0 = []"
| "word_chunks offset buffer (Suc n) =
     (offset, take 4 buffer) # word_chunks (offset + 4) (drop 4 buffer) n"

text \<open>
  The requests of the bulk write: polls of the READY register and sleeps,
  word writes, and the requests of the streamed path.  It writes no register
  and reads no memory.
\<close>

fun bulk_request :: "request \<Rightarrow> bool" where
  "bulk_request (Read_u32 a) = (a = NRF52_NVMC_READY_ADDR)"
| "bulk_request (Write_u32 a v) = False"
| "bulk_request (Read_memory a sz n) = False"
| "bulk_request (Host_calloc n) = False"
| "bulk_request _ = True"

definition bulk_event :: "event \<Rightarrow> bool" where
  "bulk_event e = bulk_request (fst e)"

text \<open>The log after \<open>k\<close> polls that found the NVMC busy, each followed by a sleep.\<close>

fun busy_log :: "log \<Rightarrow> nat \<Rightarrow> log" where
  "busy_log lg 0 = lg"
| "busy_log lg (Suc k) =
     busy_log lg k @ [(Read_u32 NRF52_NVMC_READY_ADDR, ERROR_OK), (Alive_sleep 1, ERROR_OK)]"

definition polls_busy :: "target \<Rightarrow> log \<Rightarrow> bool" where
  "polls_busy tgt lg \<longleftrightarrow>
     rcode (tgt lg (Read_u32 NRF52_NVMC_READY_ADDR)) = ERROR_OK \<and>
     rval (tgt lg (Read_u32 NRF52_NVMC_READY_ADDR)) \<noteq> NRF52_NVMC_READY"

subsection \<open>Kinds of targets\<close>

text \<open>
  A target on which nothing fails: every request is answered with
  \<open>ERROR_OK\<close>, and the NVMC is ready at every poll.
\<close>

definition cooperative :: "target \<Rightarrow> bool" where
  "cooperative tgt \<longleftrightarrow>
     (\<forall>lg rq. rcode (tgt lg rq) = ERROR_OK) \<and>
     (\<forall>lg. rval (tgt lg (Read_u32 NRF52_NVMC_READY_ADDR)) = NRF52_NVMC_READY)"

text \<open>A target on which the slow path succeeds: word writes and polls never fail.\<close>

definition accepts_words :: "target \<Rightarrow> bool" where
  "accepts_words tgt \<longleftrightarrow>
     (\<forall>lg a d. rcode (tgt lg (Write_memory a 4 1 d)) = ERROR_OK) \<and>
     (\<forall>lg. rcode (tgt lg (Read_u32 NRF52_NVMC_READY_ADDR)) = ERROR_OK) \<and>
     (\<forall>lg. rval (tgt lg (Read_u32 NRF52_NVMC_READY_ADDR)) = NRF52_NVMC_READY)"

text \<open>A target with no working area of more than 256 bytes.\<close>

definition refuses_fifo :: "target \<Rightarrow> bool" where
  "refuses_fifo tgt \<longleftrightarrow> (\<forall>lg n. 256 < n \<longrightarrow> rcode (tgt lg (Alloc_working_area n)) \<noteq> ERROR_OK)"

text \<open>
  Concrete targets.  \<open>erased_chip\<close> answers every request with \<open>ERROR_OK\<close>: its
  NVMC is always ready, its working areas are at 0x20000000, its memory reads
  as 0xFF, and its FICR describes \<open>2\<close> pages of \<open>4096\<close> bytes.
  \<open>no_fifo_area\<close> differs in that it only has room for the loader program.
  \<open>ready_after k\<close> finds the NVMC busy at the first \<open>k\<close> polls, then ready.
  \<open>stuck_trigger\<close> refuses the write to the page-erase trigger register.
\<close>

definition erased_chip :: target where
  "erased_chip lg rq =
     (case rq of
        Alloc_working_area n \<Rightarrow> Reply ERROR_OK 0x20000000 []
      | Read_memory a sz n \<Rightarrow> Reply ERROR_OK 0 (replicate (sz * n) 0xFF)
      | Read_u32 a \<Rightarrow>
          Reply ERROR_OK
            (if a = NRF52_FICR_CODEPAGESIZE_ADDR then 4096
             else if a = NRF52_FICR_CODESIZE_ADDR then 2 else 1) []
      | _ \<Rightarrow> Reply ERROR_OK 0 [])"

definition no_fifo_area :: target where
  "no_fifo_area lg rq =
     (case rq of
        Alloc_working_area n \<Rightarrow>
          (if n \<le> 256 then Reply ERROR_OK 0x20000000 []
           else Reply ERROR_TARGET_RESOURCE_NOT_AVAILABLE 0 [])
      | Read_u32 a \<Rightarrow> Reply ERROR_OK 1 []
      | _ \<Rightarrow> Reply ERROR_OK 0 [])"

definition no_working_area :: target where
  "no_working_area lg rq =
     (case rq of
        Alloc_working_area n \<Rightarrow> Reply ERROR_TARGET_RESOURCE_NOT_AVAILABLE 0 []
      | Read_u32 a \<Rightarrow> Reply ERROR_OK 1 []
      | _ \<Rightarrow> Reply ERROR_OK 0 [])"

definition ready_after :: "nat \<Rightarrow> target" where
  "ready_after k lg rq =
     Reply ERROR_OK
       (if count_req (Read_u32 NRF52_NVMC_READY_ADDR) lg < k
        then NRF52_NVMC_BUSY else NRF52_NVMC_READY) []"

definition stuck_trigger :: target where
  "stuck_trigger lg rq =
     (case rq of
        Write_u32 a v \<Rightarrow>
          (if a = NRF52_NVMC_ERASEPAGE_ADDR then Reply ERROR_FAIL 0 []
           else Reply ERROR_OK 0 [])
      | _ \<Rightarrow> Reply ERROR_OK 1 [])"

text \<open>\<open>all_ones_ficr\<close> answers every request with \<open>ERROR_OK\<close> and reads as \<open>0xFFFFFFFF\<close>.\<close>

definition all_ones_ficr :: target where
  "all_ones_ficr lg rq = Reply ERROR_OK 0xFFFFFFFF []"

subsection \<open>Banks as a probe leaves them\<close>

text \<open>
  The layout \<^verbatim>\<open>nrf52_probe\<close> gives the code bank: sector \<open>i\<close> starts at
  \<open>i * code_page_size\<close>, and the sectors end below \<open>2^32\<close>.
\<close>

definition code_layout :: "nrf52_info \<Rightarrow> flash_bank \<Rightarrow> bool" where
  "code_layout chip bank \<longleftrightarrow>
     bank_base bank = NRF52_FLASH_BASE_ADDR \<and>
     num_sectors bank = int (length (sectors bank)) \<and>
     length (sectors bank) * unat (code_page_size chip) < 2 ^ 32 \<and>
     (\<forall>i < length (sectors bank).
        sec_offset (sectors bank ! i) = of_nat i * code_page_size chip)"

text \<open>
  The identity registers describe a whole number of pages, fewer than \<open>2^31\<close>:
  \<open>code_memory_size\<close>, the 32-bit product of the page count and the page size,
  is a multiple of the page size.
\<close>

definition geometry_ok :: "nrf52_info \<Rightarrow> bool" where
  "geometry_ok chip \<longleftrightarrow>
     code_page_size chip \<noteq> 0 \<and>
     unat (code_page_size chip) dvd unat (code_memory_size chip) \<and>
     unat (code_memory_size chip) div unat (code_page_size chip) < 2 ^ 31"

text \<open>The pages of a range: the multiples of the page size in \<open>[start, end)\<close>.\<close>

definition page_in_range :: "nrf52_info \<Rightarrow> u32 \<Rightarrow> u32 \<Rightarrow> u32 \<Rightarrow> bool" where
  "page_in_range chip start end' p \<longleftrightarrow>
     start \<le> p \<and> p < end' \<and> p mod code_page_size chip = 0"

text \<open>An unprobed chip and the two unprobed banks, as the bank command sets them up.\<close>

definition new_chip :: nrf52_info where
  "new_chip = \<lparr>code_page_size = 0, code_memory_size = 0, probed0 = False, probed1 = False\<rparr>"

definition new_bank :: "u32 \<Rightarrow> nat \<Rightarrow> flash_bank" where
  "new_bank base n =
     \<lparr>bank_base = base, bank_size = 0, num_sectors = 0, sectors = [], bank_number = n\<rparr>"

text \<open>The chip and the banks after probing \<open>erased_chip\<close>.\<close>

definition chip_2x4096 :: nrf52_info where
  "chip_2x4096 =
     \<lparr>code_page_size = 4096, code_memory_size = 8192, probed0 = True, probed1 = True\<rparr>"

definition code_bank_2x4096 :: flash_bank where
  "code_bank_2x4096 =
     \<lparr>bank_base = NRF52_FLASH_BASE_ADDR, bank_size = 8192, num_sectors = 2,
      sectors = [code_sector 4096 0, code_sector 4096 1], bank_number = 0\<rparr>"

definition uicr_bank_4096 :: flash_bank where
  "uicr_bank_4096 =
     \<lparr>bank_base = NRF52_UICR_BASE_ADDR, bank_size = 4096, num_sectors = 1,
      sectors = [\<lparr>sec_offset = 0, sec_size = 4096, is_erased = - 1, is_protected = - 1\<rparr>],
      bank_number = 1\<rparr>"

subsection \<open>Events of the NVMC, and logs that only grow\<close>

text \<open>
  Polls of the READY register and sleeps; the same with the writes to the
  CONFIG register; a log that extends another by events of one kind; and the
  common shape of the three mode transitions.
\<close>

definition nvmc_event :: "event \<Rightarrow> bool" where
  "nvmc_event e \<longleftrightarrow>
     fst e = Read_u32 NRF52_NVMC_READY_ADDR \<or> (\<exists>ms. fst e = Alive_sleep ms) \<or>
     (\<exists>v. fst e = Write_u32 NRF52_NVMC_CONFIG_ADDR v)"

definition poll_event :: "event \<Rightarrow> bool" where
  "poll_event e \<longleftrightarrow>
     fst e = Read_u32 NRF52_NVMC_READY_ADDR \<or> (\<exists>ms. fst e = Alive_sleep ms)"

definition set_mode :: "u32 \<Rightarrow> target \<Rightarrow> log \<Rightarrow> int \<times> log" where
  "set_mode v tgt lg =
     (let (res, lg1) = nrf52_wait_for_nvmc tgt lg in
      if res \<noteq> ERROR_OK then (res, lg1)
      else target_write_u32 tgt NRF52_NVMC_CONFIG_ADDR v lg1)"

definition extends_by :: "(event \<Rightarrow> bool) \<Rightarrow> log \<Rightarrow> log \<Rightarrow> bool" where
  "extends_by P lg lg' \<longleftrightarrow> (\<exists>d. lg' = lg @ d \<and> list_all P d)"


text \<open>The same five requests when the target refuses the trigger write with \<open>rc\<close>.\<close>

definition page_erase_refused :: "u32 \<Rightarrow> int \<Rightarrow> log" where
  "page_erase_refused p rc =
     [(Read_u32 NRF52_NVMC_READY_ADDR, ERROR_OK),
      (Write_u32 NRF52_NVMC_CONFIG_ADDR NRF52_NVMC_CONFIG_EEN, ERROR_OK),
      (Write_u32 NRF52_NVMC_ERASEPAGE_ADDR p, rc),
      (Read_u32 NRF52_NVMC_READY_ADDR, ERROR_OK),
      (Write_u32 NRF52_NVMC_CONFIG_ADDR NRF52_NVMC_CONFIG_REN, ERROR_OK)]"

section \<open>Properties\<close>

lemmas addr_defs =
  NRF52_FLASH_BASE_ADDR_def NRF52_FICR_BASE_ADDR_def NRF52_FICR_CODEPAGESIZE_ADDR_def
  NRF52_FICR_CODESIZE_ADDR_def NRF52_UICR_BASE_ADDR_def NRF52_NVMC_BASE_ADDR_def
  NRF52_NVMC_READY_ADDR_def NRF52_NVMC_CONFIG_ADDR_def NRF52_NVMC_ERASEPAGE_ADDR_def
  NRF52_NVMC_ERASEALL_ADDR_def NRF52_NVMC_ERASEUICR_ADDR_def

lemmas code_defs =
  ERROR_OK_def ERROR_FAIL_def ERROR_TARGET_RESOURCE_NOT_AVAILABLE_def
  ERROR_FLASH_SECTOR_INVALID_def ERROR_FLASH_BUSY_def ERROR_FLASH_BANK_NOT_PROBED_def

lemmas bit_defs =
  NRF52_NVMC_CONFIG_REN_def NRF52_NVMC_CONFIG_WEN_def NRF52_NVMC_CONFIG_EEN_def
  NRF52_NVMC_BUSY_def NRF52_NVMC_READY_def

subsection \<open>Observations distribute over the log\<close>

lemma count_req_Nil [simp]: "count_req rq [] = 0"
  by (simp add: count_req_def)

lemma count_req_Cons [simp]:
  "count_req rq (e # es) = (if fst e = rq then 1 else 0) + count_req rq es"
  by (simp add: count_req_def)

lemma count_req_append [simp]: "count_req rq (xs @ ys) = count_req rq xs + count_req rq ys"
  by (simp add: count_req_def)

lemma mem_reads_Nil [simp]: "mem_reads [] = []"
  by (simp add: mem_reads_def)

lemma mem_reads_Cons [simp]: "mem_reads (e # es) = read_of e @ mem_reads es"
  by (simp add: mem_reads_def)

lemma mem_reads_append [simp]: "mem_reads (xs @ ys) = mem_reads xs @ mem_reads ys"
  by (simp add: mem_reads_def)

lemma page_erases_Nil [simp]: "page_erases [] = []"
  by (simp add: page_erases_def)

lemma page_erases_Cons [simp]: "page_erases (e # es) = erase_of e @ page_erases es"
  by (simp add: page_erases_def)

lemma page_erases_append [simp]: "page_erases (xs @ ys) = page_erases xs @ page_erases ys"
  by (simp add: page_erases_def)

lemma streamed_Nil [simp]: "streamed [] = []"
  by (simp add: streamed_def)

lemma streamed_Cons [simp]: "streamed (e # es) = stream_of e @ streamed es"
  by (simp add: streamed_def)

lemma streamed_append [simp]: "streamed (xs @ ys) = streamed xs @ streamed ys"
  by (simp add: streamed_def)

lemma word_writes_Nil [simp]: "word_writes [] = []"
  by (simp add: word_writes_def)

lemma word_writes_Cons [simp]: "word_writes (e # es) = word_of e @ word_writes es"
  by (simp add: word_writes_def)

lemma word_writes_append [simp]: "word_writes (xs @ ys) = word_writes xs @ word_writes ys"
  by (simp add: word_writes_def)

lemma nvmc_mode_Nil [simp]: "nvmc_mode [] = None"
  by (simp add: nvmc_mode_def)

lemma nvmc_mode_snoc [simp]: "nvmc_mode (lg @ [e]) = mode_step (nvmc_mode lg) e"
  by (simp add: nvmc_mode_def)

lemma nvmc_mode_append: "nvmc_mode (xs @ ys) = foldl mode_step (nvmc_mode xs) ys"
  by (simp add: nvmc_mode_def)

lemma length_fit [simp]: "length (fit n xs) = n"
  by (simp add: fit_def)

subsection \<open>Logs only grow\<close>

lemma extends_by_refl [simp]: "extends_by P lg lg"
  by (simp add: extends_by_def)

lemma extends_by_snoc [simp]: "extends_by P lg (lg @ [e]) \<longleftrightarrow> P e"
  by (auto simp: extends_by_def)

lemma extends_by_trans:
  "extends_by P lg lg1 \<Longrightarrow> extends_by P lg1 lg2 \<Longrightarrow> extends_by P lg lg2"
  by (auto simp: extends_by_def)

lemma extends_by_mono:
  "extends_by P lg lg1 \<Longrightarrow> (\<And>e. P e \<Longrightarrow> Q e) \<Longrightarrow> extends_by Q lg lg1"
  by (auto simp: extends_by_def list_all_iff)

lemma extends_by_count:
  assumes "extends_by P lg lg1" and "\<And>e. P e \<Longrightarrow> fst e \<noteq> rq"
  shows "count_req rq lg1 = count_req rq lg"
proof -
  from assms(1) obtain d where d: "lg1 = lg @ d" "list_all P d"
    by (auto simp: extends_by_def)
  have "filter (\<lambda>e. fst e = rq) d = []"
    using d(2) assms(2) by (auto simp: list_all_iff filter_empty_conv)
  then show ?thesis by (simp add: d(1) count_req_def)
qed

lemma extends_by_mem_reads:
  assumes "extends_by P lg lg1" and "\<And>e. P e \<Longrightarrow> read_of e = []"
  shows "mem_reads lg1 = mem_reads lg"
proof -
  from assms(1) obtain d where d: "lg1 = lg @ d" "list_all P d"
    by (auto simp: extends_by_def)
  have "concat (map read_of d) = []"
    using d(2) assms(2) by (auto simp: list_all_iff)
  then show ?thesis by (simp add: d(1) mem_reads_def)
qed

lemma extends_by_word_writes:
  assumes "extends_by P lg lg1" and "\<And>e. P e \<Longrightarrow> word_of e = []"
  shows "word_writes lg1 = word_writes lg"
proof -
  from assms(1) obtain d where d: "lg1 = lg @ d" "list_all P d"
    by (auto simp: extends_by_def)
  have "concat (map word_of d) = []"
    using d(2) assms(2) by (auto simp: list_all_iff)
  then show ?thesis by (simp add: d(1) word_writes_def)
qed

lemma extends_by_streamed:
  assumes "extends_by P lg lg1" and "\<And>e. P e \<Longrightarrow> stream_of e = []"
  shows "streamed lg1 = streamed lg"
proof -
  from assms(1) obtain d where d: "lg1 = lg @ d" "list_all P d"
    by (auto simp: extends_by_def)
  have "concat (map stream_of d) = []"
    using d(2) assms(2) by (auto simp: list_all_iff)
  then show ?thesis by (simp add: d(1) streamed_def)
qed

lemma nvmc_event_simps [simp]:
  "nvmc_event (Read_u32 NRF52_NVMC_READY_ADDR, rc)"
  "nvmc_event (Alive_sleep ms, rc)"
  "nvmc_event (Write_u32 NRF52_NVMC_CONFIG_ADDR v, rc)"
  by (simp_all add: nvmc_event_def)

lemma nvmc_event_not_read [simp]: "nvmc_event e \<Longrightarrow> read_of e = []"
  by (cases e) (auto simp: nvmc_event_def)

lemma nvmc_event_not_word [simp]: "nvmc_event e \<Longrightarrow> word_of e = []"
  by (cases e) (auto simp: nvmc_event_def)

lemma nvmc_event_not_stream [simp]: "nvmc_event e \<Longrightarrow> stream_of e = []"
  by (cases e) (auto simp: nvmc_event_def)

subsection \<open>The ready-wait\<close>

declare wait_loop.simps [simp del]

lemma poll_event_simps [simp]:
  "poll_event (Read_u32 NRF52_NVMC_READY_ADDR, rc)"
  "poll_event (Alive_sleep ms, rc)"
  by (simp_all add: poll_event_def)

lemma poll_event_nvmc: "poll_event e \<Longrightarrow> nvmc_event e"
  by (auto simp: poll_event_def nvmc_event_def)

lemma poll_event_mode: "poll_event e \<Longrightarrow> mode_step m e = m"
  by (cases e) (auto simp: poll_event_def)

lemma extends_by_polls_mode:
  assumes "extends_by poll_event lg lg1"
  shows "nvmc_mode lg1 = nvmc_mode lg"
proof -
  from assms obtain d where d: "lg1 = lg @ d" "list_all poll_event d"
    by (auto simp: extends_by_def)
  have "foldl mode_step m d = m" for m
    using d(2) by (induction d arbitrary: m) (simp_all add: poll_event_mode)
  then show ?thesis by (simp add: d(1) nvmc_mode_append)
qed

text \<open>
  Whatever the target answers, the ready-wait begins with a poll of the READY
  register and adds nothing but polls and sleeps to the log.
\<close>

lemma wait_loop_log:
  "\<exists>d. snd (wait_loop tgt n lg) =
         lg @ (Read_u32 NRF52_NVMC_READY_ADDR, rcode (tgt lg (Read_u32 NRF52_NVMC_READY_ADDR))) # d
       \<and> list_all poll_event d"
proof (induction tgt n lg rule: wait_loop.induct)
  case (1 tgt timeout lg)
  let ?rc = "rcode (tgt lg (Read_u32 NRF52_NVMC_READY_ADDR))"
  let ?v = "rval (tgt lg (Read_u32 NRF52_NVMC_READY_ADDR))"
  let ?lg1 = "lg @ [(Read_u32 NRF52_NVMC_READY_ADDR, ?rc)]"
  show ?case
  proof (cases "?rc \<noteq> ERROR_OK \<or> ?v = NRF52_NVMC_READY \<or> timeout = 0")
    case True
    then show ?thesis
      by (subst wait_loop.simps)
         (auto simp: target_read_u32_def call_def alive_sleep_def Let_def)
  next
    case False
    let ?lg2 = "?lg1 @ [(Alive_sleep 1, ERROR_OK)]"
    from False have eq: "wait_loop tgt timeout lg = wait_loop tgt (timeout - 1) ?lg2"
      by (subst wait_loop.simps)
         (simp add: target_read_u32_def call_def alive_sleep_def Let_def)
    have "\<exists>d. snd (wait_loop tgt (timeout - 1) ?lg2) =
         ?lg2 @ (Read_u32 NRF52_NVMC_READY_ADDR,
                 rcode (tgt ?lg2 (Read_u32 NRF52_NVMC_READY_ADDR))) # d
       \<and> list_all poll_event d"
      using False "1.IH"[of "(?rc, ?v, ?lg1)" ?rc "(?v, ?lg1)" ?v ?lg1 ?lg2]
      by (simp add: target_read_u32_def call_def alive_sleep_def Let_def)
    then obtain d where "snd (wait_loop tgt (timeout - 1) ?lg2) =
         ?lg2 @ (Read_u32 NRF52_NVMC_READY_ADDR,
                 rcode (tgt ?lg2 (Read_u32 NRF52_NVMC_READY_ADDR))) # d"
       and "list_all poll_event d"
      by blast
    then show ?thesis
      unfolding eq by simp
  qed
qed

lemma wait_for_nvmc_log:
  "\<exists>d. snd (nrf52_wait_for_nvmc tgt lg) =
         lg @ (Read_u32 NRF52_NVMC_READY_ADDR, rcode (tgt lg (Read_u32 NRF52_NVMC_READY_ADDR))) # d
       \<and> list_all poll_event d"
  unfolding nrf52_wait_for_nvmc_def by (rule wait_loop_log)

lemma wait_for_nvmc_polls: "extends_by poll_event lg (snd (nrf52_wait_for_nvmc tgt lg))"
  using wait_for_nvmc_log[of tgt lg] by (auto simp: extends_by_def)

lemma wait_for_nvmc_extends: "extends_by nvmc_event lg (snd (nrf52_wait_for_nvmc tgt lg))"
  by (rule extends_by_mono[OF wait_for_nvmc_polls]) (rule poll_event_nvmc)

lemma wait_for_nvmc_mode [simp]: "nvmc_mode (snd (nrf52_wait_for_nvmc tgt lg)) = nvmc_mode lg"
  by (rule extends_by_polls_mode) (rule wait_for_nvmc_polls)

subsection \<open>The three mode transitions\<close>

text \<open>
  Each transition is a ready-wait followed by one write to the CONFIG
  register.  \<open>set_mode\<close> is their common shape.
\<close>

lemma transitions_set_mode:
  "nrf52_nvmc_erase_enable = set_mode NRF52_NVMC_CONFIG_EEN"
  "nrf52_nvmc_write_enable = set_mode NRF52_NVMC_CONFIG_WEN"
  "nrf52_nvmc_read_only = set_mode NRF52_NVMC_CONFIG_REN"
  by (auto simp: fun_eq_iff set_mode_def nrf52_nvmc_erase_enable_def
      nrf52_nvmc_write_enable_def nrf52_nvmc_read_only_def)

lemma set_mode_extends: "extends_by nvmc_event lg (snd (set_mode v tgt lg))"
proof -
  obtain res lg1 where w: "nrf52_wait_for_nvmc tgt lg = (res, lg1)"
    by (cases "nrf52_wait_for_nvmc tgt lg")
  have e1: "extends_by nvmc_event lg lg1"
    using wait_for_nvmc_extends[of lg tgt] w by simp
  show ?thesis
  proof (cases "res = ERROR_OK")
    case False
    then show ?thesis using e1 w by (simp add: set_mode_def)
  next
    case True
    have "extends_by nvmc_event lg1 (snd (target_write_u32 tgt NRF52_NVMC_CONFIG_ADDR v lg1))"
      by (simp add: target_write_u32_def call_def Let_def)
    with e1 have "extends_by nvmc_event lg (snd (target_write_u32 tgt NRF52_NVMC_CONFIG_ADDR v lg1))"
      by (rule extends_by_trans)
    then show ?thesis using True w by (simp add: set_mode_def)
  qed
qed

lemma set_mode_first_poll:
  "\<exists>d. snd (set_mode v tgt lg) =
     lg @ (Read_u32 NRF52_NVMC_READY_ADDR, rcode (tgt lg (Read_u32 NRF52_NVMC_READY_ADDR))) # d"
proof -
  obtain res lg1 where w: "nrf52_wait_for_nvmc tgt lg = (res, lg1)"
    by (cases "nrf52_wait_for_nvmc tgt lg")
  from wait_for_nvmc_log[of tgt lg] w obtain d where
    d: "lg1 = lg @ (Read_u32 NRF52_NVMC_READY_ADDR,
          rcode (tgt lg (Read_u32 NRF52_NVMC_READY_ADDR))) # d"
    by auto
  show ?thesis
    using w d by (cases "res = ERROR_OK")
      (auto simp: set_mode_def target_write_u32_def call_def Let_def)
qed

lemma set_mode_ok:
  assumes "fst (set_mode v tgt lg) = ERROR_OK"
  shows "nvmc_mode (snd (set_mode v tgt lg)) = Some v"
proof -
  obtain res lg1 where w: "nrf52_wait_for_nvmc tgt lg = (res, lg1)"
    by (cases "nrf52_wait_for_nvmc tgt lg")
  show ?thesis
    using assms w
    by (cases "res = ERROR_OK")
       (auto simp: set_mode_def target_write_u32_def call_def Let_def)
qed

lemma set_mode_fails:
  assumes "fst (set_mode v tgt lg) \<noteq> ERROR_OK"
  shows "nvmc_mode (snd (set_mode v tgt lg)) = nvmc_mode lg"
proof -
  obtain res lg1 where w: "nrf52_wait_for_nvmc tgt lg = (res, lg1)"
    by (cases "nrf52_wait_for_nvmc tgt lg")
  have "nvmc_mode lg1 = nvmc_mode lg"
    using wait_for_nvmc_mode[of tgt lg] w by simp
  then show ?thesis
    using assms w
    by (cases "res = ERROR_OK")
       (auto simp: set_mode_def target_write_u32_def call_def Let_def)
qed

subsection \<open>The generic erase\<close>

text \<open>
  C2.  Once erase mode has been enabled, the generic erase writes the trigger
  value and then runs the transition to read-only mode, whatever the trigger
  write returned: the rest of the call is \<^verbatim>\<open>nrf52_nvmc_read_only\<close> on the log
  that holds the trigger write, the next request after the trigger write is
  the poll that begins that transition, and the call returns what the
  transition returns.  When the transition succeeds, the controller is in
  read-only mode, also after a failed trigger write.
\<close>

theorem generic_erase_always_attempts_read_only:
  assumes "nrf52_nvmc_erase_enable tgt lg = (ERROR_OK, lg1)"
  shows "nrf52_nvmc_generic_erase tgt reg v lg =
           nrf52_nvmc_read_only tgt (lg1 @ [(Write_u32 reg v, rcode (tgt lg1 (Write_u32 reg v)))])
       \<and> (\<exists>d. snd (nrf52_nvmc_generic_erase tgt reg v lg) =
             lg1 @ (Write_u32 reg v, rcode (tgt lg1 (Write_u32 reg v)))
                 # (Read_u32 NRF52_NVMC_READY_ADDR,
                    rcode (tgt (lg1 @ [(Write_u32 reg v, rcode (tgt lg1 (Write_u32 reg v)))])
                       (Read_u32 NRF52_NVMC_READY_ADDR))) # d)
       \<and> (fst (nrf52_nvmc_generic_erase tgt reg v lg) = ERROR_OK \<longrightarrow>
            nvmc_mode (snd (nrf52_nvmc_generic_erase tgt reg v lg)) = Some NRF52_NVMC_CONFIG_REN)"
proof -
  let ?lg2 = "lg1 @ [(Write_u32 reg v, rcode (tgt lg1 (Write_u32 reg v)))]"
  have eq: "nrf52_nvmc_generic_erase tgt reg v lg = nrf52_nvmc_read_only tgt ?lg2"
    using assms
    by (simp add: nrf52_nvmc_generic_erase_def target_write_u32_def call_def Let_def)
  moreover have "\<exists>d. snd (nrf52_nvmc_read_only tgt ?lg2) =
      ?lg2 @ (Read_u32 NRF52_NVMC_READY_ADDR,
              rcode (tgt ?lg2 (Read_u32 NRF52_NVMC_READY_ADDR))) # d"
    unfolding transitions_set_mode by (rule set_mode_first_poll)
  moreover have "fst (nrf52_nvmc_read_only tgt ?lg2) = ERROR_OK \<longrightarrow>
      nvmc_mode (snd (nrf52_nvmc_read_only tgt ?lg2)) = Some NRF52_NVMC_CONFIG_REN"
    unfolding transitions_set_mode by (simp add: set_mode_ok)
  ultimately show ?thesis by simp
qed

text \<open>
  On \<open>stuck_trigger\<close> the write to the page-erase trigger fails with
  \<open>ERROR_FAIL\<close>; the controller is polled and set to read-only all the same.
\<close>

theorem generic_erase_always_attempts_read_only_witness:
  "nrf52_nvmc_erase_enable stuck_trigger [] =
     (ERROR_OK, [(Read_u32 NRF52_NVMC_READY_ADDR, ERROR_OK),
                 (Write_u32 NRF52_NVMC_CONFIG_ADDR NRF52_NVMC_CONFIG_EEN, ERROR_OK)])
   \<and> nrf52_nvmc_generic_erase stuck_trigger NRF52_NVMC_ERASEPAGE_ADDR 4096 [] =
     (ERROR_OK, [(Read_u32 NRF52_NVMC_READY_ADDR, ERROR_OK),
                 (Write_u32 NRF52_NVMC_CONFIG_ADDR NRF52_NVMC_CONFIG_EEN, ERROR_OK),
                 (Write_u32 NRF52_NVMC_ERASEPAGE_ADDR 4096, ERROR_FAIL),
                 (Read_u32 NRF52_NVMC_READY_ADDR, ERROR_OK),
                 (Write_u32 NRF52_NVMC_CONFIG_ADDR NRF52_NVMC_CONFIG_REN, ERROR_OK)])
   \<and> nvmc_mode (snd (nrf52_nvmc_generic_erase stuck_trigger NRF52_NVMC_ERASEPAGE_ADDR 4096 []))
       = Some NRF52_NVMC_CONFIG_REN"
proof -
  have en: "nrf52_nvmc_erase_enable stuck_trigger [] =
     (ERROR_OK, [(Read_u32 NRF52_NVMC_READY_ADDR, ERROR_OK),
                 (Write_u32 NRF52_NVMC_CONFIG_ADDR NRF52_NVMC_CONFIG_EEN, ERROR_OK)])"
    by (simp add: nrf52_nvmc_erase_enable_def nrf52_wait_for_nvmc_def wait_loop.simps
        target_read_u32_def target_write_u32_def call_def stuck_trigger_def Let_def
        addr_defs bit_defs code_defs)
  have ro: "nrf52_nvmc_read_only stuck_trigger
       [(Read_u32 NRF52_NVMC_READY_ADDR, ERROR_OK),
        (Write_u32 NRF52_NVMC_CONFIG_ADDR NRF52_NVMC_CONFIG_EEN, ERROR_OK),
        (Write_u32 NRF52_NVMC_ERASEPAGE_ADDR 4096, ERROR_FAIL)] =
     (ERROR_OK, [(Read_u32 NRF52_NVMC_READY_ADDR, ERROR_OK),
                 (Write_u32 NRF52_NVMC_CONFIG_ADDR NRF52_NVMC_CONFIG_EEN, ERROR_OK),
                 (Write_u32 NRF52_NVMC_ERASEPAGE_ADDR 4096, ERROR_FAIL),
                 (Read_u32 NRF52_NVMC_READY_ADDR, ERROR_OK),
                 (Write_u32 NRF52_NVMC_CONFIG_ADDR NRF52_NVMC_CONFIG_REN, ERROR_OK)])"
    by (simp add: nrf52_nvmc_read_only_def nrf52_wait_for_nvmc_def wait_loop.simps
        target_read_u32_def target_write_u32_def call_def stuck_trigger_def Let_def
        addr_defs bit_defs code_defs)
  have tr: "rcode (stuck_trigger [(Read_u32 NRF52_NVMC_READY_ADDR, ERROR_OK),
                 (Write_u32 NRF52_NVMC_CONFIG_ADDR NRF52_NVMC_CONFIG_EEN, ERROR_OK)]
        (Write_u32 NRF52_NVMC_ERASEPAGE_ADDR 4096)) = ERROR_FAIL"
    by (simp add: stuck_trigger_def)
  have g: "nrf52_nvmc_generic_erase stuck_trigger NRF52_NVMC_ERASEPAGE_ADDR 4096 [] =
     (ERROR_OK, [(Read_u32 NRF52_NVMC_READY_ADDR, ERROR_OK),
                 (Write_u32 NRF52_NVMC_CONFIG_ADDR NRF52_NVMC_CONFIG_EEN, ERROR_OK),
                 (Write_u32 NRF52_NVMC_ERASEPAGE_ADDR 4096, ERROR_FAIL),
                 (Read_u32 NRF52_NVMC_READY_ADDR, ERROR_OK),
                 (Write_u32 NRF52_NVMC_CONFIG_ADDR NRF52_NVMC_CONFIG_REN, ERROR_OK)])"
    using generic_erase_always_attempts_read_only
      [OF en, of NRF52_NVMC_ERASEPAGE_ADDR 4096, THEN conjunct1]
    by (simp add: tr ro)
  have "nvmc_mode (snd (nrf52_nvmc_generic_erase stuck_trigger NRF52_NVMC_ERASEPAGE_ADDR 4096 []))
       = Some NRF52_NVMC_CONFIG_REN"
    using generic_erase_always_attempts_read_only
      [OF en, of NRF52_NVMC_ERASEPAGE_ADDR 4096, THEN conjunct2, THEN conjunct2]
    by (simp add: g)
  with en g show ?thesis by simp
qed

subsection \<open>The polling budget of the ready-wait\<close>

lemma wait_loop_busy_step:
  assumes "polls_busy tgt lg"
  shows "wait_loop tgt n lg =
     (if n \<noteq> 0 then wait_loop tgt (n - 1) (busy_log lg 1)
      else (ERROR_FLASH_BUSY, busy_log lg 1))"
  using assms
  by (subst wait_loop.simps)
     (simp add: polls_busy_def target_read_u32_def call_def alive_sleep_def Let_def)

lemma wait_loop_busy_prefix:
  assumes "\<forall>j<k. polls_busy tgt (busy_log lg j)" and "k \<le> n"
  shows "wait_loop tgt n lg = wait_loop tgt (n - k) (busy_log lg k)"
  using assms
proof (induction k)
  case 0
  then show ?case by simp
next
  case (Suc k)
  then have "wait_loop tgt n lg = wait_loop tgt (n - k) (busy_log lg k)" by simp
  also have "\<dots> = wait_loop tgt (n - k - 1) (busy_log (busy_log lg k) 1)"
    using Suc.prems by (subst wait_loop_busy_step) auto
  finally show ?case by simp
qed

text \<open>The loop gives up after \<open>timeout + 1\<close> polls that all found the NVMC busy.\<close>

lemma wait_loop_timeout:
  assumes "\<forall>j\<le>n. polls_busy tgt (busy_log lg j)"
  shows "wait_loop tgt n lg = (ERROR_FLASH_BUSY, busy_log lg (Suc n))"
proof -
  have "wait_loop tgt n lg = wait_loop tgt 0 (busy_log lg n)"
    using assms wait_loop_busy_prefix[of n tgt lg n] by simp
  also have "\<dots> = (ERROR_FLASH_BUSY, busy_log (busy_log lg n) 1)"
    using assms by (subst wait_loop_busy_step) auto
  finally show ?thesis by simp
qed

lemma wait_loop_ready:
  assumes "rcode (tgt lg (Read_u32 NRF52_NVMC_READY_ADDR)) = ERROR_OK"
    and "rval (tgt lg (Read_u32 NRF52_NVMC_READY_ADDR)) = NRF52_NVMC_READY"
  shows "wait_loop tgt n lg = (ERROR_OK, lg @ [(Read_u32 NRF52_NVMC_READY_ADDR, ERROR_OK)])"
  using assms
  by (subst wait_loop.simps) (simp add: target_read_u32_def call_def Let_def)

lemma wait_loop_read_fails:
  assumes "rcode (tgt lg (Read_u32 NRF52_NVMC_READY_ADDR)) = e" and "e \<noteq> ERROR_OK"
  shows "wait_loop tgt n lg = (e, lg @ [(Read_u32 NRF52_NVMC_READY_ADDR, e)])"
  using assms
  by (subst wait_loop.simps) (simp add: target_read_u32_def call_def Let_def)

lemma count_ready_busy_log:
  "count_req (Read_u32 NRF52_NVMC_READY_ADDR) (busy_log lg k) =
     count_req (Read_u32 NRF52_NVMC_READY_ADDR) lg + k"
  by (induction k) simp_all

text \<open>
  What the ready-wait does do: it returns \<open>ERROR_OK\<close> at the first poll that
  reads the ready value, hands on the code of a failing poll at once, and
  returns \<open>ERROR_FLASH_BUSY\<close> (which is not \<open>ERROR_OK\<close>) after 101 polls that
  all succeeded and found the NVMC busy, having slept after each of them.
\<close>

lemma wait_for_nvmc_outcomes:
  "(k \<le> 100 \<and> (\<forall>j<k. polls_busy tgt (busy_log lg j)) \<and>
      rcode (tgt (busy_log lg k) (Read_u32 NRF52_NVMC_READY_ADDR)) = ERROR_OK \<and>
      rval (tgt (busy_log lg k) (Read_u32 NRF52_NVMC_READY_ADDR)) = NRF52_NVMC_READY
    \<longrightarrow> nrf52_wait_for_nvmc tgt lg =
          (ERROR_OK, busy_log lg k @ [(Read_u32 NRF52_NVMC_READY_ADDR, ERROR_OK)]))
   \<and> (k \<le> 100 \<and> (\<forall>j<k. polls_busy tgt (busy_log lg j)) \<and>
      rcode (tgt (busy_log lg k) (Read_u32 NRF52_NVMC_READY_ADDR)) = e \<and> e \<noteq> ERROR_OK
    \<longrightarrow> nrf52_wait_for_nvmc tgt lg =
          (e, busy_log lg k @ [(Read_u32 NRF52_NVMC_READY_ADDR, e)]))
   \<and> ((\<forall>j\<le>100. polls_busy tgt (busy_log lg j))
    \<longrightarrow> nrf52_wait_for_nvmc tgt lg = (ERROR_FLASH_BUSY, busy_log lg 101))
   \<and> ERROR_FLASH_BUSY \<noteq> ERROR_OK"
proof -
  have pre: "wait_loop tgt 100 lg = wait_loop tgt (100 - k) (busy_log lg k)"
    if "k \<le> 100" "\<forall>j<k. polls_busy tgt (busy_log lg j)"
    using that by (intro wait_loop_busy_prefix) auto
  have a: "nrf52_wait_for_nvmc tgt lg =
          (ERROR_OK, busy_log lg k @ [(Read_u32 NRF52_NVMC_READY_ADDR, ERROR_OK)])"
    if "k \<le> 100" "\<forall>j<k. polls_busy tgt (busy_log lg j)"
      "rcode (tgt (busy_log lg k) (Read_u32 NRF52_NVMC_READY_ADDR)) = ERROR_OK"
      "rval (tgt (busy_log lg k) (Read_u32 NRF52_NVMC_READY_ADDR)) = NRF52_NVMC_READY"
    unfolding nrf52_wait_for_nvmc_def pre[OF that(1,2)]
    by (rule wait_loop_ready[of tgt "busy_log lg k", OF that(3,4)])
  have b: "nrf52_wait_for_nvmc tgt lg =
          (e, busy_log lg k @ [(Read_u32 NRF52_NVMC_READY_ADDR, e)])"
    if "k \<le> 100" "\<forall>j<k. polls_busy tgt (busy_log lg j)"
      "rcode (tgt (busy_log lg k) (Read_u32 NRF52_NVMC_READY_ADDR)) = e" "e \<noteq> ERROR_OK"
    unfolding nrf52_wait_for_nvmc_def pre[OF that(1,2)]
    by (rule wait_loop_read_fails[of tgt "busy_log lg k", OF that(3,4)])
  have s: "Suc 100 = 101" by simp
  have c: "nrf52_wait_for_nvmc tgt lg = (ERROR_FLASH_BUSY, busy_log lg 101)"
    if "\<forall>j\<le>100. polls_busy tgt (busy_log lg j)"
    unfolding nrf52_wait_for_nvmc_def using wait_loop_timeout[OF that] unfolding s .
  have d: "ERROR_FLASH_BUSY \<noteq> ERROR_OK" by (simp add: code_defs)
  from a b c d show ?thesis by blast
qed

text \<open>
  C6.  The ready-wait does not stop at 100 reads of the ready flag: the
  do-while loop tests \<open>timeout--\<close> with \<open>timeout\<close> starting at 100, so its body
  runs up to 101 times.  On a target whose NVMC is busy at the first 100 polls
  and ready at the next one, the wait polls 101 times and returns \<open>ERROR_OK\<close>,
  where a budget of 100 attempts gives the busy/timeout error.
\<close>

theorem wait_for_nvmc_polls_101_times:
  "fst (nrf52_wait_for_nvmc (ready_after 100) []) = ERROR_OK \<and>
   count_req (Read_u32 NRF52_NVMC_READY_ADDR)
     (snd (nrf52_wait_for_nvmc (ready_after 100) [])) = 101"
proof -
  have busy: "\<forall>j<100. polls_busy (ready_after 100) (busy_log [] j)"
    by (simp add: polls_busy_def ready_after_def count_ready_busy_log bit_defs
             del: busy_log.simps)
  have "nrf52_wait_for_nvmc (ready_after 100) [] =
          wait_loop (ready_after 100) (100 - 100) (busy_log [] 100)"
    unfolding nrf52_wait_for_nvmc_def
    by (rule wait_loop_busy_prefix[OF busy]) simp
  also have "\<dots> = (ERROR_OK, busy_log [] 100 @ [(Read_u32 NRF52_NVMC_READY_ADDR, ERROR_OK)])"
    by (rule wait_loop_ready)
       (simp_all add: ready_after_def count_ready_busy_log del: busy_log.simps)
  finally show ?thesis
    by (simp add: count_ready_busy_log del: busy_log.simps)
qed

subsection \<open>The sector map\<close>

lemma unat_of_nat32: "i < 2 ^ 32 \<Longrightarrow> unat (of_nat i :: u32) = i"
  by (simp add: unat_of_nat)

lemma sint_small: "unat (x :: u32) < 2 ^ 31 \<Longrightarrow> sint x = int (unat x)"
proof -
  assume a: "unat x < 2 ^ 31"
  have "int (unat x) < int (2 ^ 31)" using a by (rule iffD2[OF of_nat_less_iff])
  then have "uint x < 2 ^ 31" by simp
  moreover have "0 \<le> uint x" by simp
  then have "- (2 ^ 31) \<le> uint x" by (rule order_trans[rotated]) simp
  ultimately have "signed_take_bit 31 (uint x) = uint x"
    by (intro signed_take_bit_int_eq_self)
  then show ?thesis by (simp add: sint_uint)
qed

lemma find_sector_layout:
  fixes ps a :: u32
  assumes "0 < unat ps"
    and "(i + length ss) * unat ps < 2 ^ 32"
    and "\<forall>j<length ss. sec_offset (ss ! j) = of_nat (i + j) * ps"
    and "i * unat ps \<le> unat a"
  shows "find_sector ps a ss i =
     (if unat a < (i + length ss) * unat ps then Some (unat a div unat ps) else None)"
  using assms
proof (induction ss arbitrary: i)
  case Nil
  then show ?case by simp
next
  case (Cons s ss)
  let ?p = "unat ps"
  have p: "0 < ?p" by fact
  have b1: "Suc i * ?p < 2 ^ 32"
  proof -
    have "Suc i * ?p \<le> (i + length (s # ss)) * ?p" by (intro mult_le_mono1) simp
    then show ?thesis using Cons.prems(2) by (rule le_less_trans)
  qed
  have "i * ?p \<le> Suc i * ?p" by simp
  then have bip: "i * ?p < 2 ^ 32" using b1 by (rule le_less_trans)
  have "i * 1 \<le> i * ?p" using p by (intro mult_le_mono2) simp
  then have "i \<le> i * ?p" by (simp only: mult_1_right)
  then have bi: "i < 2 ^ 32" using bip by (rule le_less_trans)
  have off: "sec_offset s = of_nat i * ps"
    using Cons.prems(3)[rule_format, of 0] by simp
  have u1: "unat (sec_offset s) = i * ?p"
    unfolding off using bip bi unat_mult_lem[of "of_nat i :: u32" ps]
    by (simp add: unat_of_nat32)
  have u2: "unat (sec_offset s + ps) = Suc i * ?p"
    using b1 u1 unat_add_lem[of "sec_offset s" ps] by simp
  have cond: "(sec_offset s \<le> a \<and> a < sec_offset s + ps) \<longleftrightarrow> unat a < Suc i * ?p"
    using Cons.prems(4) by (simp add: word_le_nat_alt word_less_nat_alt u1 u2)
  show ?case
  proof (cases "unat a < Suc i * ?p")
    case True
    have "unat a div ?p = i"
      using True Cons.prems(4) p
      by (metis div_nat_eqI mult.commute)
    moreover have "unat a < (i + length (s # ss)) * ?p"
    proof -
      have "Suc i * ?p \<le> (i + length (s # ss)) * ?p" by (intro mult_le_mono1) simp
      with True show ?thesis by (rule less_le_trans)
    qed
    ultimately show ?thesis using True cond by simp
  next
    case False
    have "find_sector ps a ss (Suc i) =
       (if unat a < (Suc i + length ss) * ?p then Some (unat a div ?p) else None)"
    proof (rule Cons.IH[OF p])
      show "(Suc i + length ss) * ?p < 2 ^ 32" using Cons.prems(2) by simp
      show "\<forall>j<length ss. sec_offset (ss ! j) = of_nat (Suc i + j) * ps"
      proof (intro allI impI)
        fix j assume "j < length ss"
        then have "sec_offset ((s # ss) ! Suc j) = of_nat (i + Suc j) * ps"
          using Cons.prems(3) by (intro Cons.prems(3)[rule_format]) simp
        then show "sec_offset (ss ! j) = of_nat (Suc i + j) * ps" by simp
      qed
      show "Suc i * ?p \<le> unat a" using False by simp
    qed
    moreover have "\<not> (sec_offset s \<le> a \<and> a < sec_offset s + ps)"
      using False cond by blast
    then have "find_sector ps a (s # ss) i = find_sector ps a ss (Suc i)"
      by (simp only: find_sector.simps if_False)
    ultimately show ?thesis by simp
  qed
qed

text \<open>What a successful probe leaves in the chip and the bank.\<close>

lemma probe_ok_code:
  assumes "nrf52_probe tgt chip bank lg = (Returned ERROR_OK, chip', bank', lg')"
    and "bank_base bank = NRF52_FLASH_BASE_ADDR"
  shows "code_page_size chip' \<noteq> 0"
    and "bank_base bank' = NRF52_FLASH_BASE_ADDR"
    and "bank_size bank' = code_memory_size chip'"
    and "num_sectors bank' = sint (bank_size bank' div code_page_size chip')"
    and "sectors bank' = map (code_sector (code_page_size chip')) [0..<nat (num_sectors bank')]"
  using assms
  by (auto simp: nrf52_probe_def Let_def target_read_u32_def call_def code_defs
           split: if_splits)

lemma probe_ok_uicr:
  assumes "nrf52_probe tgt chip bank lg = (Returned ERROR_OK, chip', bank', lg')"
    and "bank_base bank \<noteq> NRF52_FLASH_BASE_ADDR"
  shows "bank_base bank' = bank_base bank"
    and "bank_size bank' = code_page_size chip'"
    and "num_sectors bank' = 1"
    and "sectors bank' =
      [\<lparr>sec_offset = 0, sec_size = code_page_size chip', is_erased = - 1, is_protected = - 1\<rparr>]"
  using assms
  by (auto simp: nrf52_probe_def Let_def target_read_u32_def call_def code_defs
           split: if_splits)

lemma geometry_count:
  assumes "geometry_ok chip"
  shows "sint (code_memory_size chip div code_page_size chip) =
           int (unat (code_memory_size chip) div unat (code_page_size chip))"
    and "(unat (code_memory_size chip) div unat (code_page_size chip)) * unat (code_page_size chip)
           = unat (code_memory_size chip)"
    and "0 < unat (code_page_size chip)"
proof -
  have "unat (code_memory_size chip div code_page_size chip) < 2 ^ 31"
    using assms by (simp add: geometry_ok_def unat_div)
  then show "sint (code_memory_size chip div code_page_size chip) =
           int (unat (code_memory_size chip) div unat (code_page_size chip))"
    by (simp add: sint_small unat_div)
  show "(unat (code_memory_size chip) div unat (code_page_size chip)) * unat (code_page_size chip)
           = unat (code_memory_size chip)"
    using assms by (simp add: geometry_ok_def)
  show "0 < unat (code_page_size chip)"
    using assms by (simp add: geometry_ok_def unat_gt_0)
qed

text \<open>The probed code bank has the layout the page writer relies on.\<close>

lemma probe_code_layout:
  assumes "nrf52_probe tgt chip bank lg = (Returned ERROR_OK, chip', bank', lg')"
    and "bank_base bank = NRF52_FLASH_BASE_ADDR" and "geometry_ok chip'"
  shows "code_layout chip' bank'"
    and "length (sectors bank') * unat (code_page_size chip') = unat (bank_size bank')"
proof -
  note p = probe_ok_code[OF assms(1,2)]
  note g = geometry_count[OF assms(3)]
  let ?n = "unat (code_memory_size chip') div unat (code_page_size chip')"
  have n: "num_sectors bank' = int ?n" using p(3,4) g(1) by simp
  then have len: "length (sectors bank') = ?n" using p(5) by simp
  show sz: "length (sectors bank') * unat (code_page_size chip') = unat (bank_size bank')"
    using len g(2) p(3) by simp
  have "unat (bank_size bank') < 2 ^ 32"
    using unsigned_less[of "bank_size bank'", where 'a = nat] by simp
  then show "code_layout chip' bank'"
    using p(2) n len sz by (simp add: code_layout_def p(5) code_sector_def)
qed

lemma find_sector_code_layout:
  assumes "code_layout chip bank" and "code_page_size chip \<noteq> 0"
  shows "nrf52_find_sector_by_address chip bank a =
     (if unat a < length (sectors bank) * unat (code_page_size chip)
      then Some (unat a div unat (code_page_size chip)) else None)"
proof -
  have "find_sector (code_page_size chip) a (sectors bank) 0 =
     (if unat a < (0 + length (sectors bank)) * unat (code_page_size chip)
      then Some (unat a div unat (code_page_size chip)) else None)"
    using assms by (intro find_sector_layout) (simp_all add: code_layout_def unat_gt_0)
  moreover have "take (nat (num_sectors bank)) (sectors bank) = sectors bank"
    using assms(1) by (simp add: code_layout_def)
  ultimately show ?thesis by (simp add: nrf52_find_sector_by_address_def)
qed

lemma find_sector_probed:
  assumes "nrf52_probe tgt chip bank lg = (Returned ERROR_OK, chip', bank', lg')"
    and "bank_base bank = NRF52_FLASH_BASE_ADDR \<longrightarrow> geometry_ok chip'"
  shows "nrf52_find_sector_by_address chip' bank' a \<noteq> None \<longleftrightarrow> a < bank_size bank'"
proof (cases "bank_base bank = NRF52_FLASH_BASE_ADDR")
  case True
  with assms(2) have g: "geometry_ok chip'" by simp
  note l = probe_code_layout[OF assms(1) True g]
  have "code_page_size chip' \<noteq> 0" using g by (simp add: geometry_ok_def)
  then show ?thesis
    by (simp add: find_sector_code_layout[OF l(1)] l(2) word_less_nat_alt)
next
  case False
  note p = probe_ok_uicr[OF assms(1) False]
  show ?thesis
    by (simp add: nrf52_find_sector_by_address_def p)
qed

lemma probe_erased_chip_code:
  "nrf52_probe erased_chip new_chip (new_bank NRF52_FLASH_BASE_ADDR 0) [] =
     (Returned ERROR_OK, chip_2x4096\<lparr>probed1 := False\<rparr>, code_bank_2x4096,
      [(Read_u32 NRF52_FICR_CODEPAGESIZE_ADDR, ERROR_OK),
       (Read_u32 NRF52_FICR_CODESIZE_ADDR, ERROR_OK), (Host_calloc 2, ERROR_OK)])"
  by (simp add: nrf52_probe_def erased_chip_def target_read_u32_def call_def new_chip_def
      new_bank_def chip_2x4096_def code_bank_2x4096_def Let_def addr_defs code_defs
      upt_conv_Cons)

lemma probe_erased_chip_uicr:
  "nrf52_probe erased_chip (chip_2x4096\<lparr>probed1 := False\<rparr>)
       (new_bank NRF52_UICR_BASE_ADDR 1) [] =
     (Returned ERROR_OK, chip_2x4096, uicr_bank_4096,
      [(Read_u32 NRF52_FICR_CODEPAGESIZE_ADDR, ERROR_OK),
       (Read_u32 NRF52_FICR_CODESIZE_ADDR, ERROR_OK), (Host_calloc 1, ERROR_OK)])"
  by (simp add: nrf52_probe_def erased_chip_def target_read_u32_def call_def new_bank_def
      chip_2x4096_def uicr_bank_4096_def Let_def addr_defs code_defs)

lemma geometry_ok_2x4096: "geometry_ok (chip_2x4096\<lparr>probed1 := False\<rparr>)"
  by (simp add: geometry_ok_def chip_2x4096_def)

text \<open>
  C8, as the claim states it, fails for a code region whose identity
  registers do not describe a whole number of pages.  On \<open>all_ones_ficr\<close> both
  registers read \<open>0xFFFFFFFF\<close>: the 32-bit product, the declared size of the
  region, is 1, the sector count \<open>1 / 0xFFFFFFFF\<close> is 0, and the probe
  succeeds with an empty sector list, which does not cover the one byte of
  the region.
\<close>

theorem probe_all_ones_ficr_counterexample:
  "fst (nrf52_probe all_ones_ficr new_chip (new_bank NRF52_FLASH_BASE_ADDR 0) [])
     = Returned ERROR_OK
   \<and> code_page_size (fst (snd (nrf52_probe all_ones_ficr new_chip
        (new_bank NRF52_FLASH_BASE_ADDR 0) []))) = 0xFFFFFFFF
   \<and> bank_size (fst (snd (snd (nrf52_probe all_ones_ficr new_chip
        (new_bank NRF52_FLASH_BASE_ADDR 0) [])))) = 1
   \<and> num_sectors (fst (snd (snd (nrf52_probe all_ones_ficr new_chip
        (new_bank NRF52_FLASH_BASE_ADDR 0) [])))) = 0
   \<and> sectors (fst (snd (snd (nrf52_probe all_ones_ficr new_chip
        (new_bank NRF52_FLASH_BASE_ADDR 0) [])))) = []
   \<and> length (sectors (fst (snd (snd (nrf52_probe all_ones_ficr new_chip
        (new_bank NRF52_FLASH_BASE_ADDR 0) []))))) *
       unat (code_page_size (fst (snd (nrf52_probe all_ones_ficr new_chip
        (new_bank NRF52_FLASH_BASE_ADDR 0) []))))
     \<noteq> unat (bank_size (fst (snd (snd (nrf52_probe all_ones_ficr new_chip
        (new_bank NRF52_FLASH_BASE_ADDR 0) [])))))"
proof -
  have "nrf52_probe all_ones_ficr new_chip (new_bank NRF52_FLASH_BASE_ADDR 0) [] =
     (Returned ERROR_OK,
      \<lparr>code_page_size = 0xFFFFFFFF, code_memory_size = 1, probed0 = True, probed1 = False\<rparr>,
      \<lparr>bank_base = NRF52_FLASH_BASE_ADDR, bank_size = 1, num_sectors = 0, sectors = [],
       bank_number = 0\<rparr>,
      [(Read_u32 NRF52_FICR_CODEPAGESIZE_ADDR, ERROR_OK),
       (Read_u32 NRF52_FICR_CODESIZE_ADDR, ERROR_OK), (Host_calloc 0, ERROR_OK)])"
    by (simp add: nrf52_probe_def all_ones_ficr_def target_read_u32_def call_def new_chip_def
        new_bank_def Let_def addr_defs code_defs)
  then show ?thesis by simp
qed

text \<open>
  C8, amended.  After a successful probe of the config region, and after a
  successful probe of the code region when the identity registers describe a
  whole number of pages (a page size other than 0, a 32-bit product of page
  count and page size that is a multiple of the page size, fewer than \<open>2^31\<close>
  pages), the sector list has as many entries as \<open>num_sectors\<close> says; sector
  \<open>i\<close> starts at \<open>i\<close> times the page size and is one page long, so the offsets
  increase strictly and each sector begins where the one before ends; the
  sectors together are exactly \<open>bank_size\<close> bytes; the code region has
  \<open>bank_size / code_page_size\<close> sectors and the config region has one; and
  every sector's \<open>is_erased\<close> and \<open>is_protected\<close> are \<open>-1\<close> (unknown).
\<close>

theorem probe_sector_list:
  assumes "nrf52_probe tgt chip bank lg = (Returned ERROR_OK, chip', bank', lg')"
    and "bank_base bank = NRF52_FLASH_BASE_ADDR \<longrightarrow> geometry_ok chip'"
  shows "length (sectors bank') = nat (num_sectors bank')
     \<and> (\<forall>i<length (sectors bank').
          unat (sec_offset (sectors bank' ! i)) = i * unat (code_page_size chip') \<and>
          sec_size (sectors bank' ! i) = code_page_size chip' \<and>
          is_erased (sectors bank' ! i) = - 1 \<and> is_protected (sectors bank' ! i) = - 1)
     \<and> sorted_wrt (<) (map (\<lambda>s. unat (sec_offset s)) (sectors bank'))
     \<and> sum_list (map (\<lambda>s. unat (sec_size s)) (sectors bank')) = unat (bank_size bank')
     \<and> length (sectors bank') * unat (code_page_size chip') = unat (bank_size bank')
     \<and> (bank_base bank = NRF52_FLASH_BASE_ADDR \<longrightarrow>
          num_sectors bank' = int (unat (bank_size bank') div unat (code_page_size chip')))
     \<and> (bank_base bank \<noteq> NRF52_FLASH_BASE_ADDR \<longrightarrow> num_sectors bank' = 1)"
proof (cases "bank_base bank = NRF52_FLASH_BASE_ADDR")
  case True
  with assms(2) have g: "geometry_ok chip'" by simp
  note p = probe_ok_code[OF assms(1) True]
  note c = geometry_count[OF g]
  note l = probe_code_layout[OF assms(1) True g]
  let ?ps = "code_page_size chip'"
  let ?n = "unat (bank_size bank') div unat ?ps"
  have n: "num_sectors bank' = int ?n" using p(3,4) c(1) by simp
  have len: "length (sectors bank') = ?n" using p(5) n by simp
  have off: "unat (sec_offset (sectors bank' ! i)) = i * unat ?ps" if "i < ?n" for i
  proof -
    have "i * unat ?ps \<le> ?n * unat ?ps" using that by (intro mult_le_mono1) simp
    also have "\<dots> = unat (bank_size bank')" using l(2) len by simp
    also have "\<dots> < 2 ^ 32" using unsigned_less[of "bank_size bank'", where 'a = nat] by simp
    finally have b: "i * unat ?ps < 2 ^ 32" .
    have "i * 1 \<le> i * unat ?ps" using c(3) by (intro mult_le_mono2) simp
    then have "i \<le> i * unat ?ps" by (simp only: mult_1_right)
    then have "i < 2 ^ 32" using b by (rule le_less_trans)
    then have "unat (of_nat i * ?ps) = i * unat ?ps"
      using b unat_mult_lem[of "of_nat i :: u32" ?ps] by (simp add: unat_of_nat32)
    moreover have "sectors bank' ! i = code_sector ?ps i"
      using that n by (simp add: p(5))
    ultimately show ?thesis by (simp add: code_sector_def)
  qed
  have srt: "sorted_wrt (<) (map (\<lambda>s. unat (sec_offset s)) (sectors bank'))"
    unfolding sorted_wrt_iff_nth_less
  proof (intro allI impI)
    fix i j
    assume ij: "i < j" "j < length (map (\<lambda>s. unat (sec_offset s)) (sectors bank'))"
    then have "i < ?n" "j < ?n" using len by simp_all
    moreover have "i * unat ?ps < j * unat ?ps" using ij(1) c(3) by simp
    ultimately show "map (\<lambda>s. unat (sec_offset s)) (sectors bank') ! i
        < map (\<lambda>s. unat (sec_offset s)) (sectors bank') ! j"
      using len by (simp add: off)
  qed
  have "map (\<lambda>s. unat (sec_size s)) (sectors bank') = replicate ?n (unat ?ps)"
    using n by (simp add: p(5) code_sector_def comp_def map_replicate_const)
  then have sm: "sum_list (map (\<lambda>s. unat (sec_size s)) (sectors bank')) = unat (bank_size bank')"
    using l(2) len by (simp add: sum_list_replicate)
  have rest: "sec_size (sectors bank' ! i) = ?ps \<and> is_erased (sectors bank' ! i) = - 1
      \<and> is_protected (sectors bank' ! i) = - 1" if "i < ?n" for i
    using that n by (simp add: p(5) code_sector_def)
  show ?thesis
    using True n len off rest srt sm l(2) by simp
next
  case False
  note p = probe_ok_uicr[OF assms(1) False]
  show ?thesis using False by (simp add: p)
qed

theorem probe_sector_list_witness:
  "nrf52_probe erased_chip new_chip (new_bank NRF52_FLASH_BASE_ADDR 0) [] =
     (Returned ERROR_OK, chip_2x4096\<lparr>probed1 := False\<rparr>, code_bank_2x4096,
      [(Read_u32 NRF52_FICR_CODEPAGESIZE_ADDR, ERROR_OK),
       (Read_u32 NRF52_FICR_CODESIZE_ADDR, ERROR_OK), (Host_calloc 2, ERROR_OK)])
   \<and> geometry_ok (chip_2x4096\<lparr>probed1 := False\<rparr>)
   \<and> length (sectors code_bank_2x4096) = 2
   \<and> unat (sec_offset (sectors code_bank_2x4096 ! 1)) = 4096
   \<and> sum_list (map (\<lambda>s. unat (sec_size s)) (sectors code_bank_2x4096)) = 8192
   \<and> num_sectors code_bank_2x4096 = 2"
proof -
  have g: "bank_base (new_bank NRF52_FLASH_BASE_ADDR 0) = NRF52_FLASH_BASE_ADDR \<longrightarrow>
      geometry_ok (chip_2x4096\<lparr>probed1 := False\<rparr>)"
    by (simp add: geometry_ok_2x4096)
  have b: "bank_base (new_bank NRF52_FLASH_BASE_ADDR 0) = NRF52_FLASH_BASE_ADDR"
    by (simp add: new_bank_def)
  have s: "bank_size code_bank_2x4096 = 8192"
    "code_page_size (chip_2x4096\<lparr>probed1 := False\<rparr>) = 4096"
    by (simp_all add: code_bank_2x4096_def chip_2x4096_def)
  note t = probe_sector_list[OF probe_erased_chip_code g]
  have "length (sectors code_bank_2x4096) = 2"
    using t by (simp add: code_bank_2x4096_def)
  moreover have "unat (sec_offset (sectors code_bank_2x4096 ! 1)) = 4096"
    using t by (simp add: code_bank_2x4096_def code_sector_def)
  moreover have "sum_list (map (\<lambda>s. unat (sec_size s)) (sectors code_bank_2x4096)) = 8192"
    using t by (simp add: s)
  moreover have "num_sectors code_bank_2x4096 = 2"
    using t b by (simp add: s)
  ultimately show ?thesis
    using probe_erased_chip_code geometry_ok_2x4096 by simp
qed

text \<open>
  C7, as the claim states it, fails on the config region: the lookup compares
  the address with sector offsets, which are relative to the base of the
  bank.  In the probed config bank the address \<open>0x10001000\<close>, the first byte of
  the region, has no sector, and the address \<open>0\<close>, far below the region, has
  one.
\<close>

theorem find_sector_config_base_counterexample:
  "fst (nrf52_probe erased_chip (chip_2x4096\<lparr>probed1 := False\<rparr>)
         (new_bank NRF52_UICR_BASE_ADDR 1) []) = Returned ERROR_OK
   \<and> fst (snd (snd (nrf52_probe erased_chip (chip_2x4096\<lparr>probed1 := False\<rparr>)
         (new_bank NRF52_UICR_BASE_ADDR 1) []))) = uicr_bank_4096
   \<and> bank_base uicr_bank_4096 \<le> NRF52_UICR_BASE_ADDR
   \<and> unat NRF52_UICR_BASE_ADDR < unat (bank_base uicr_bank_4096) + unat (bank_size uicr_bank_4096)
   \<and> nrf52_find_sector_by_address chip_2x4096 uicr_bank_4096 NRF52_UICR_BASE_ADDR = None
   \<and> \<not> bank_base uicr_bank_4096 \<le> 0
   \<and> nrf52_find_sector_by_address chip_2x4096 uicr_bank_4096 0 = Some 0"
proof -
  have "fst (nrf52_probe erased_chip (chip_2x4096\<lparr>probed1 := False\<rparr>)
         (new_bank NRF52_UICR_BASE_ADDR 1) []) = Returned ERROR_OK"
    and "fst (snd (snd (nrf52_probe erased_chip (chip_2x4096\<lparr>probed1 := False\<rparr>)
         (new_bank NRF52_UICR_BASE_ADDR 1) []))) = uicr_bank_4096"
    by (simp_all only: probe_erased_chip_uicr fst_conv snd_conv)
  moreover have "bank_base uicr_bank_4096 \<le> NRF52_UICR_BASE_ADDR"
    and "unat NRF52_UICR_BASE_ADDR
           < unat (bank_base uicr_bank_4096) + unat (bank_size uicr_bank_4096)"
    and "\<not> bank_base uicr_bank_4096 \<le> 0"
    by (simp_all add: uicr_bank_4096_def addr_defs)
  moreover have "nrf52_find_sector_by_address chip_2x4096 uicr_bank_4096 NRF52_UICR_BASE_ADDR
      = None"
    and "nrf52_find_sector_by_address chip_2x4096 uicr_bank_4096 0 = Some 0"
    by (simp_all add: uicr_bank_4096_def chip_2x4096_def nrf52_find_sector_by_address_def
        addr_defs)
  ultimately show ?thesis by blast
qed

text \<open>
  C7, amended.  In a probed region the sector lookup finds a sector if and
  only if the address, taken as an offset from the base of the region, is
  below the size of the region.  For the code region, whose base is 0, these
  are the addresses in \<open>[base, base + size)\<close>.  When the page writer does not
  find the sector of the first page of its range it returns
  \<open>ERROR_FLASH_SECTOR_INVALID\<close> at once, with no access to the target.
\<close>

theorem find_sector_iff_offset_in_region:
  assumes "nrf52_probe tgt chip bank lg = (Returned ERROR_OK, chip', bank', lg')"
    and "bank_base bank = NRF52_FLASH_BASE_ADDR \<longrightarrow> geometry_ok chip'"
  shows "(nrf52_find_sector_by_address chip' bank' a \<noteq> None \<longleftrightarrow> a < bank_size bank')
     \<and> (bank_base bank = NRF52_FLASH_BASE_ADDR \<longrightarrow>
          (nrf52_find_sector_by_address chip' bank' a \<noteq> None \<longleftrightarrow>
             bank_base bank' \<le> a \<and> unat a < unat (bank_base bank') + unat (bank_size bank')))
     \<and> (pages_aligned chip' a e \<and> a < e \<and> nrf52_find_sector_by_address chip' bank' a = None
          \<longrightarrow> nrf52_write_pages tgt2 chip' bank' a e buffer lg2 =
               (Returned ERROR_FLASH_SECTOR_INVALID, bank', lg2))"
proof -
  have f: "nrf52_find_sector_by_address chip' bank' a \<noteq> None \<longleftrightarrow> a < bank_size bank'"
    by (rule find_sector_probed[OF assms])
  have c: "nrf52_find_sector_by_address chip' bank' a \<noteq> None \<longleftrightarrow>
      bank_base bank' \<le> a \<and> unat a < unat (bank_base bank') + unat (bank_size bank')"
    if "bank_base bank = NRF52_FLASH_BASE_ADDR"
    using probe_ok_code(2)[OF assms(1) that] f
    by (simp add: NRF52_FLASH_BASE_ADDR_def word_less_nat_alt)
  have w: "nrf52_write_pages tgt2 chip' bank' a e buffer lg2 =
      (Returned ERROR_FLASH_SECTOR_INVALID, bank', lg2)"
    if "pages_aligned chip' a e" "a < e" "nrf52_find_sector_by_address chip' bank' a = None"
    using that
    by (simp add: nrf52_write_pages_def erase_pages.simps[of tgt2 chip' bank' a e lg2] code_defs)
  from f c w show ?thesis by blast
qed

theorem find_sector_iff_offset_in_region_witness:
  "nrf52_probe erased_chip new_chip (new_bank NRF52_FLASH_BASE_ADDR 0) [] =
     (Returned ERROR_OK, chip_2x4096\<lparr>probed1 := False\<rparr>, code_bank_2x4096,
      [(Read_u32 NRF52_FICR_CODEPAGESIZE_ADDR, ERROR_OK),
       (Read_u32 NRF52_FICR_CODESIZE_ADDR, ERROR_OK), (Host_calloc 2, ERROR_OK)])
   \<and> geometry_ok (chip_2x4096\<lparr>probed1 := False\<rparr>)
   \<and> nrf52_find_sector_by_address (chip_2x4096\<lparr>probed1 := False\<rparr>) code_bank_2x4096 8191
       \<noteq> None
   \<and> nrf52_find_sector_by_address (chip_2x4096\<lparr>probed1 := False\<rparr>) code_bank_2x4096 8192
       = None
   \<and> pages_aligned (chip_2x4096\<lparr>probed1 := False\<rparr>) 8192 12288
   \<and> nrf52_write_pages erased_chip (chip_2x4096\<lparr>probed1 := False\<rparr>) code_bank_2x4096
        8192 12288 (replicate 4096 0) [] =
       (Returned ERROR_FLASH_SECTOR_INVALID, code_bank_2x4096, [])"
proof -
  have g: "bank_base (new_bank NRF52_FLASH_BASE_ADDR 0) = NRF52_FLASH_BASE_ADDR \<longrightarrow>
      geometry_ok (chip_2x4096\<lparr>probed1 := False\<rparr>)"
    by (simp add: geometry_ok_2x4096)
  have s: "bank_size code_bank_2x4096 = 8192"
    by (simp add: code_bank_2x4096_def)
  have al: "pages_aligned (chip_2x4096\<lparr>probed1 := False\<rparr>) 8192 12288"
    by (simp add: pages_aligned_def chip_2x4096_def)
  have lt: "(8192 :: u32) < 12288" by simp
  note t1 = find_sector_iff_offset_in_region[OF probe_erased_chip_code g, of 8191]
  note t2 = find_sector_iff_offset_in_region
    [OF probe_erased_chip_code g, of 8192 12288 erased_chip "replicate 4096 0" "[]"]
  have a: "nrf52_find_sector_by_address (chip_2x4096\<lparr>probed1 := False\<rparr>)
      code_bank_2x4096 8191 \<noteq> None"
    using t1 by (simp add: s)
  have b: "nrf52_find_sector_by_address (chip_2x4096\<lparr>probed1 := False\<rparr>)
      code_bank_2x4096 8192 = None"
    using t2 by (simp add: s)
  have "nrf52_write_pages erased_chip (chip_2x4096\<lparr>probed1 := False\<rparr>) code_bank_2x4096
        8192 12288 (replicate 4096 0) [] =
       (Returned ERROR_FLASH_SECTOR_INVALID, code_bank_2x4096, [])"
    using t2 al lt b by blast
  with a b al show ?thesis
    using probe_erased_chip_code geometry_ok_2x4096 by simp
qed

subsection \<open>On a cooperative target\<close>

text \<open>
  On a target where nothing fails every step of the controller is
  determined: one poll per ready-wait, and the writes in program order.
\<close>

lemma cooperative_accepts_words: "cooperative tgt \<Longrightarrow> accepts_words tgt"
  by (simp add: cooperative_def accepts_words_def)

lemma accepts_wait:
  assumes "accepts_words tgt"
  shows "nrf52_wait_for_nvmc tgt lg = (ERROR_OK, lg @ [(Read_u32 NRF52_NVMC_READY_ADDR, ERROR_OK)])"
  unfolding nrf52_wait_for_nvmc_def
  using assms by (intro wait_loop_ready) (simp_all add: accepts_words_def)

lemma coop_wait:
  assumes "cooperative tgt"
  shows "nrf52_wait_for_nvmc tgt lg = (ERROR_OK, lg @ [(Read_u32 NRF52_NVMC_READY_ADDR, ERROR_OK)])"
  by (rule accepts_wait[OF cooperative_accepts_words[OF assms]])

lemma coop_set_mode:
  assumes "cooperative tgt"
  shows "set_mode v tgt lg =
     (ERROR_OK, lg @ [(Read_u32 NRF52_NVMC_READY_ADDR, ERROR_OK),
                      (Write_u32 NRF52_NVMC_CONFIG_ADDR v, ERROR_OK)])"
  using assms
  by (simp add: set_mode_def coop_wait target_write_u32_def call_def Let_def cooperative_def)

lemma coop_generic_erase:
  assumes "cooperative tgt"
  shows "nrf52_nvmc_generic_erase tgt reg v lg =
     (ERROR_OK, lg @ [(Read_u32 NRF52_NVMC_READY_ADDR, ERROR_OK),
                      (Write_u32 NRF52_NVMC_CONFIG_ADDR NRF52_NVMC_CONFIG_EEN, ERROR_OK),
                      (Write_u32 reg v, ERROR_OK),
                      (Read_u32 NRF52_NVMC_READY_ADDR, ERROR_OK),
                      (Write_u32 NRF52_NVMC_CONFIG_ADDR NRF52_NVMC_CONFIG_REN, ERROR_OK)])"
  using assms
  by (simp add: nrf52_nvmc_generic_erase_def transitions_set_mode coop_set_mode
      target_write_u32_def call_def Let_def cooperative_def)

subsection \<open>The bulk write\<close>

declare slow_write.simps [simp del]
declare alloc_source.simps [simp del]

lemma bulk_event_simps [simp]:
  "bulk_event (Read_u32 NRF52_NVMC_READY_ADDR, rc)"
  "bulk_event (Alive_sleep ms, rc)"
  "bulk_event (Write_memory a sz n d, rc)"
  "bulk_event (Write_buffer a sz d, rc)"
  "bulk_event (Alloc_working_area sz, rc)"
  "bulk_event (Free_working_area a sz, rc)"
  "bulk_event (Run_flash_async_algorithm d n bs regs a sz entry, rc)"
  "\<not> bulk_event (Write_u32 a v, rc)"
  "\<not> bulk_event (Read_memory a sz n, rc)"
  by (simp_all add: bulk_event_def)

lemma poll_event_bulk: "poll_event e \<Longrightarrow> bulk_event e"
  by (auto simp: poll_event_def bulk_event_def)

lemma bulk_event_not_read [simp]: "bulk_event e \<Longrightarrow> read_of e = []"
  by (cases e, cases "fst e") (auto simp: bulk_event_def)

lemma bulk_event_mode: "bulk_event e \<Longrightarrow> mode_step m e = m"
  by (cases e, cases "fst e") (auto simp: bulk_event_def)

lemma extends_by_bulk_mode:
  assumes "extends_by bulk_event lg lg1"
  shows "nvmc_mode lg1 = nvmc_mode lg"
proof -
  from assms obtain d where d: "lg1 = lg @ d" "list_all bulk_event d"
    by (auto simp: extends_by_def)
  have "foldl mode_step m d = m" for m
    using d(2) by (induction d arbitrary: m) (simp_all add: bulk_event_mode)
  then show ?thesis by (simp add: d(1) nvmc_mode_append)
qed

lemma wait_for_nvmc_bulk: "extends_by bulk_event lg (snd (nrf52_wait_for_nvmc tgt lg))"
  by (rule extends_by_mono[OF wait_for_nvmc_polls]) (rule poll_event_bulk)

lemma mod4_sub4:
  fixes bytes :: u32
  assumes "bytes mod 4 = 0" and "0 < bytes"
  shows "(bytes - 4) mod 4 = 0" and "unat bytes div 4 = Suc (unat (bytes - 4) div 4)"
proof -
  have u: "unat (bytes - 4) = unat bytes - 4" by (rule unat_sub4[OF assms])
  have "4 \<le> bytes" by (rule mod4_ge[OF assms])
  then have ge: "4 \<le> unat bytes" by (simp add: word_le_nat_alt)
  have "unat (bytes mod 4) = unat bytes mod 4" by (simp add: unat_mod)
  with assms(1) have "4 dvd unat bytes" by (simp add: dvd_eq_mod_eq_0)
  then obtain j where j: "unat bytes = 4 * j" by (auto simp: dvd_def)
  with ge obtain i where i: "j = Suc i" by (cases j) auto
  have k: "unat bytes = 4 * i + 4" and k4: "unat (bytes - 4) = 4 * i"
    using j i u by simp_all
  have "unat ((bytes - 4) mod 4) = unat (bytes - 4) mod 4" by (simp add: unat_mod)
  then have "unat ((bytes - 4) mod 4) = 0" by (simp add: k4)
  then show "(bytes - 4) mod 4 = 0" by (simp add: unat_0_iff)
  show "unat bytes div 4 = Suc (unat (bytes - 4) div 4)"
    by (simp add: k k4)
qed

text \<open>Whatever the target does, the slow path only polls, sleeps and writes words.\<close>

lemma slow_write_bulk: "extends_by bulk_event lg (snd (slow_write tgt offset buffer bytes lg))"
proof (induction "unat bytes div 4" arbitrary: bytes offset buffer lg)
  case 0
  show ?case
  proof (cases "bytes mod 4 = 0")
    case False
    then show ?thesis by (subst slow_write.simps) simp
  next
    case True
    have "unat (bytes mod 4) = unat bytes mod 4" by (simp add: unat_mod)
    with True have "unat bytes mod 4 = 0" by simp
    with 0 have "unat bytes = 0" by presburger
    then have "bytes = 0" by (simp add: unat_0_iff)
    then show ?thesis by (subst slow_write.simps) simp
  qed
next
  case (Suc n)
  show ?case
  proof (cases "bytes mod 4 = 0 \<and> 0 < bytes")
    case False
    then have "bytes mod 4 \<noteq> 0 \<or> bytes = 0" by (auto simp: word_neq_0_conv)
    then show ?thesis by (subst slow_write.simps) auto
  next
    case True
    then have bm: "bytes mod 4 = 0" and bp: "0 < bytes" by simp_all
    obtain r1 lg1 where w: "target_write_memory tgt offset 4 1 buffer lg = (r1, lg1)"
      by (cases "target_write_memory tgt offset 4 1 buffer lg")
    have e1: "extends_by bulk_event lg lg1"
      using w by (auto simp: target_write_memory_def call_def Let_def)
    obtain r2 lg2 where p: "nrf52_wait_for_nvmc tgt lg1 = (r2, lg2)"
      by (cases "nrf52_wait_for_nvmc tgt lg1")
    have "extends_by bulk_event lg1 lg2"
      using wait_for_nvmc_bulk[of lg1 tgt] p by simp
    with e1 have e2: "extends_by bulk_event lg lg2" by (rule extends_by_trans)
    have n: "n = unat (bytes - 4) div 4"
      using mod4_sub4(2)[OF bm bp] Suc(2) by simp
    have e3: "extends_by bulk_event lg
        (snd (slow_write tgt (offset + 4) (drop 4 buffer) (bytes - 4) lg2))"
      using Suc(1)[OF n] e2 by (rule extends_by_trans[rotated])
    show ?thesis
      using bm bp w p e1 e2 e3 by (subst slow_write.simps) simp
  qed
qed

text \<open>
  On a target that accepts every word and is ready at every poll, the slow
  path writes exactly the words of the buffer and returns \<open>ERROR_OK\<close>.
\<close>

lemma slow_write_accepts:
  assumes "accepts_words tgt" and "bytes mod 4 = 0"
  shows "fst (slow_write tgt offset buffer bytes lg) = Returned ERROR_OK \<and>
         word_writes (snd (slow_write tgt offset buffer bytes lg)) =
           word_writes lg @ word_chunks offset buffer (unat bytes div 4) \<and>
         streamed (snd (slow_write tgt offset buffer bytes lg)) = streamed lg"
  using assms(2)
proof (induction "unat bytes div 4" arbitrary: bytes offset buffer lg)
  case 0
  have "unat (bytes mod 4) = unat bytes mod 4" by (simp add: unat_mod)
  with 0(2) have "unat bytes mod 4 = 0" by simp
  with 0(1) have "unat bytes = 0" by presburger
  then have "bytes = 0" by (simp add: unat_0_iff)
  then show ?case by (subst (1 2 3) slow_write.simps) simp
next
  case (Suc n)
  have "unat bytes \<noteq> 0" using Suc(2) by auto
  then have bp: "0 < bytes" by (simp add: word_less_nat_alt)
  note m = mod4_sub4[OF Suc(3) bp]
  have n: "n = unat (bytes - 4) div 4" using m(2) Suc(2) by simp
  let ?lg2 = "lg @ [(Write_memory offset 4 1 (take 4 buffer), ERROR_OK),
                     (Read_u32 NRF52_NVMC_READY_ADDR, ERROR_OK)]"
  have step: "slow_write tgt offset buffer bytes lg =
      slow_write tgt (offset + 4) (drop 4 buffer) (bytes - 4) ?lg2"
    using Suc(3) bp assms(1)
    by (subst slow_write.simps)
       (simp add: target_write_memory_def call_def Let_def accepts_wait accepts_words_def)
  show ?case
    unfolding step using Suc(1)[OF n m(1), of "offset + 4" "drop 4 buffer" ?lg2] m(2)
    by simp
qed

lemma alloc_source_bulk: "extends_by bulk_event lg (snd (alloc_source tgt sz lg))"
proof (induction tgt sz lg rule: alloc_source.induct)
  case (1 tgt buffer_size lg)
  let ?r = "tgt lg (Alloc_working_area (unat buffer_size))"
  let ?lg1 = "lg @ [(Alloc_working_area (unat buffer_size), rcode ?r)]"
  let ?bs = "(buffer_size div 2) AND NOT 3"
  show ?case
  proof (cases "rcode ?r = ERROR_OK \<or> ?bs \<le> 256")
    case True
    then show ?thesis
      by (subst alloc_source.simps) (auto simp: call_def Let_def)
  next
    case False
    then have eq: "alloc_source tgt buffer_size lg = alloc_source tgt ?bs ?lg1"
      by (subst alloc_source.simps) (simp add: call_def Let_def)
    have "extends_by bulk_event ?lg1 (snd (alloc_source tgt ?bs ?lg1))"
      using False "1.IH"[of "(?r, ?lg1)" ?r ?lg1 ?bs] by (simp add: call_def Let_def)
    moreover have "extends_by bulk_event lg ?lg1" by simp
    ultimately show ?thesis unfolding eq by (rule extends_by_trans[rotated])
  qed
qed

lemma ll_flash_write_bulk:
  "extends_by bulk_event lg (snd (nrf52_ll_flash_write tgt offset buffer bytes lg))"
proof -
  let ?n = "length nrf52_flash_write_code"
  let ?r = "tgt lg (Alloc_working_area ?n)"
  let ?lg1 = "lg @ [(Alloc_working_area ?n, rcode ?r)]"
  have e1: "extends_by bulk_event lg ?lg1" by simp
  obtain rw lg2 where wb:
    "target_write_buffer tgt (rval ?r) ?n nrf52_flash_write_code ?lg1 = (rw, lg2)"
    by (cases "target_write_buffer tgt (rval ?r) ?n nrf52_flash_write_code ?lg1")
  have e2: "extends_by bulk_event lg lg2"
    using wb by (auto simp: target_write_buffer_def call_def Let_def extends_by_def)
  obtain src lg3 where al: "alloc_source tgt 8192 lg2 = (src, lg3)"
    by (cases "alloc_source tgt 8192 lg2")
  have "extends_by bulk_event lg2 lg3"
    using alloc_source_bulk[of lg2 tgt 8192] al by simp
  with e2 have e3: "extends_by bulk_event lg lg3" by (rule extends_by_trans)
  have free: "extends_by bulk_event l (target_free_working_area tgt a s l)" for l a s
    by (simp add: target_free_working_area_def call_def Let_def)
  have slow: "extends_by bulk_event lg (snd (slow_write tgt offset buffer bytes ?lg1))"
    by (rule extends_by_trans[OF e1 slow_write_bulk])
  show ?thesis
  proof (cases "bytes mod 4 \<noteq> 0")
    case True
    then show ?thesis by (simp add: nrf52_ll_flash_write_def)
  next
    case b: False
    show ?thesis
    proof (cases "rcode ?r \<noteq> ERROR_OK")
      case True
      then show ?thesis using b slow
        by (simp add: nrf52_ll_flash_write_def call_def Let_def)
    next
      case a: False
      show ?thesis
      proof (cases "rw \<noteq> ERROR_OK")
        case True
        then show ?thesis using a b wb e2
          by (simp add: nrf52_ll_flash_write_def call_def Let_def)
      next
        case w: False
        show ?thesis
        proof (cases src)
          case None
          then show ?thesis using a b w wb al
            by (auto simp: nrf52_ll_flash_write_def call_def Let_def
                intro: extends_by_trans[OF e3 free])
        next
          case (Some sa)
          obtain s1 s2 where sa: "sa = (s1, s2)" by (cases sa)
          have f2: "extends_by bulk_event lg3
              (target_free_working_area tgt a1 n1 (target_free_working_area tgt a2 n2
                 (lg3 @ [(Run_flash_async_algorithm d n bs rs a s en, rc)])))"
            for a1 n1 a2 n2 d n bs rs a s en rc
            by (rule extends_by_trans[OF _ free], rule extends_by_trans[OF _ free]) simp
          show ?thesis using a b w wb al Some sa
            by (auto simp: nrf52_ll_flash_write_def call_def Let_def
                intro: extends_by_trans[OF e3 f2])
        qed
      qed
    qed
  qed
qed

subsection \<open>The bulk write without working areas\<close>

lemma refuses_fifoD:
  "refuses_fifo tgt \<Longrightarrow> 256 < n \<Longrightarrow> rcode (tgt lg (Alloc_working_area n)) \<noteq> ERROR_OK"
  by (simp add: refuses_fifo_def)

text \<open>
  The shrink loop asks for 8192, 4096, 2048, 1024 and 512 bytes and gives up
  when the next size would be 256.
\<close>

lemma alloc_source_refused:
  assumes "refuses_fifo tgt"
  shows "fst (alloc_source tgt 8192 lg) = None"
    and "map fst (drop (length lg) (snd (alloc_source tgt 8192 lg))) =
      [Alloc_working_area 8192, Alloc_working_area 4096, Alloc_working_area 2048,
       Alloc_working_area 1024, Alloc_working_area 512]"
    and "extends_by (\<lambda>e. \<exists>n. fst e = Alloc_working_area n) lg (snd (alloc_source tgt 8192 lg))"
  by (simp_all add: alloc_source.simps call_def Let_def refuses_fifoD[OF assms] extends_by_def)

lemma extends_by_allocs_words:
  assumes "extends_by (\<lambda>e. \<exists>n. fst e = Alloc_working_area n) lg lg1"
  shows "word_writes lg1 = word_writes lg" and "streamed lg1 = streamed lg"
proof -
  have w: "word_of e = []" if "\<exists>n. fst e = Alloc_working_area n" for e
    using that by (cases e) auto
  have s: "stream_of e = []" if "\<exists>n. fst e = Alloc_working_area n" for e
    using that by (cases e) auto
  show "word_writes lg1 = word_writes lg"
    by (rule extends_by_word_writes[OF assms]) (rule w)
  show "streamed lg1 = streamed lg"
    by (rule extends_by_streamed[OF assms]) (rule s)
qed

text \<open>
  The two allocation failures of the bulk write.  When the target refuses the
  working area for the loader program, the bulk write is done by the slow
  path: on a target that accepts the word writes it returns \<open>ERROR_OK\<close>,
  having written the buffer word by word and streamed nothing.  When the
  loader is in place and the target refuses the buffer area at every size the
  shrink loop tries (8192 down to 512 bytes), the loader's area is released
  and the bulk write returns \<open>ERROR_TARGET_RESOURCE_NOT_AVAILABLE\<close> without
  writing anything.
\<close>

lemma ll_flash_write_alloc_failures:
  "(rcode (tgt lg (Alloc_working_area (length nrf52_flash_write_code))) \<noteq> ERROR_OK \<and>
    accepts_words tgt \<and> bytes mod 4 = 0 \<longrightarrow>
      fst (nrf52_ll_flash_write tgt offset buffer bytes lg) = Returned ERROR_OK \<and>
      word_writes (snd (nrf52_ll_flash_write tgt offset buffer bytes lg)) =
        word_writes lg @ word_chunks offset buffer (unat bytes div 4) \<and>
      streamed (snd (nrf52_ll_flash_write tgt offset buffer bytes lg)) = streamed lg)
   \<and> (rcode (tgt lg (Alloc_working_area (length nrf52_flash_write_code))) = ERROR_OK \<and>
       rcode (tgt (lg @ [(Alloc_working_area (length nrf52_flash_write_code), ERROR_OK)])
         (Write_buffer (rval (tgt lg (Alloc_working_area (length nrf52_flash_write_code))))
            (length nrf52_flash_write_code) nrf52_flash_write_code)) = ERROR_OK \<and>
       refuses_fifo tgt \<and> bytes mod 4 = 0 \<longrightarrow>
      fst (nrf52_ll_flash_write tgt offset buffer bytes lg) =
        Returned ERROR_TARGET_RESOURCE_NOT_AVAILABLE \<and>
      word_writes (snd (nrf52_ll_flash_write tgt offset buffer bytes lg)) = word_writes lg \<and>
      streamed (snd (nrf52_ll_flash_write tgt offset buffer bytes lg)) = streamed lg \<and>
      map fst (drop (length lg) (snd (nrf52_ll_flash_write tgt offset buffer bytes lg))) =
        [Alloc_working_area (length nrf52_flash_write_code),
         Write_buffer (rval (tgt lg (Alloc_working_area (length nrf52_flash_write_code))))
            (length nrf52_flash_write_code) nrf52_flash_write_code,
         Alloc_working_area 8192, Alloc_working_area 4096, Alloc_working_area 2048,
         Alloc_working_area 1024, Alloc_working_area 512,
         Free_working_area (rval (tgt lg (Alloc_working_area (length nrf52_flash_write_code))))
            (length nrf52_flash_write_code)])"
proof (intro conjI impI)
  let ?n = "length nrf52_flash_write_code"
  let ?r = "tgt lg (Alloc_working_area ?n)"
  let ?lg1 = "lg @ [(Alloc_working_area ?n, rcode ?r)]"
  assume a: "rcode ?r \<noteq> ERROR_OK \<and> accepts_words tgt \<and> bytes mod 4 = 0"
  then have eq: "nrf52_ll_flash_write tgt offset buffer bytes lg =
      slow_write tgt offset buffer bytes ?lg1"
    by (simp add: nrf52_ll_flash_write_def call_def Let_def)
  have s: "fst (slow_write tgt offset buffer bytes ?lg1) = Returned ERROR_OK \<and>
         word_writes (snd (slow_write tgt offset buffer bytes ?lg1)) =
           word_writes ?lg1 @ word_chunks offset buffer (unat bytes div 4) \<and>
         streamed (snd (slow_write tgt offset buffer bytes ?lg1)) = streamed ?lg1"
    using a by (intro slow_write_accepts) simp_all
  show "fst (nrf52_ll_flash_write tgt offset buffer bytes lg) = Returned ERROR_OK"
    unfolding eq using s by simp
  show "word_writes (snd (nrf52_ll_flash_write tgt offset buffer bytes lg)) =
        word_writes lg @ word_chunks offset buffer (unat bytes div 4)"
    unfolding eq using s by simp
  show "streamed (snd (nrf52_ll_flash_write tgt offset buffer bytes lg)) = streamed lg"
    unfolding eq using s by simp
next
  let ?n = "length nrf52_flash_write_code"
  let ?r = "tgt lg (Alloc_working_area ?n)"
  let ?wb = "Write_buffer (rval ?r) ?n nrf52_flash_write_code"
  let ?lg2 = "lg @ [(Alloc_working_area ?n, ERROR_OK), (?wb, ERROR_OK)]"
  assume b: "rcode ?r = ERROR_OK \<and>
       rcode (tgt (lg @ [(Alloc_working_area ?n, ERROR_OK)]) ?wb) = ERROR_OK \<and>
       refuses_fifo tgt \<and> bytes mod 4 = 0"
  then have rf: "refuses_fifo tgt" by simp
  obtain lg3 where al: "alloc_source tgt 8192 ?lg2 = (None, lg3)"
    using alloc_source_refused(1)[OF rf, of ?lg2] by (cases "alloc_source tgt 8192 ?lg2") auto
  have ev: "map fst (drop (length ?lg2) lg3) =
      [Alloc_working_area 8192, Alloc_working_area 4096, Alloc_working_area 2048,
       Alloc_working_area 1024, Alloc_working_area 512]"
    using alloc_source_refused(2)[OF rf, of ?lg2] al by simp
  have ex: "extends_by (\<lambda>e. \<exists>n. fst e = Alloc_working_area n) ?lg2 lg3"
    using alloc_source_refused(3)[OF rf, of ?lg2] al by simp
  then obtain d where d: "lg3 = ?lg2 @ d" by (auto simp: extends_by_def)
  have eq: "nrf52_ll_flash_write tgt offset buffer bytes lg =
      (Returned ERROR_TARGET_RESOURCE_NOT_AVAILABLE,
       lg3 @ [(Free_working_area (rval ?r) ?n,
               rcode (tgt lg3 (Free_working_area (rval ?r) ?n)))])"
    using b al
    by (simp add: nrf52_ll_flash_write_def target_write_buffer_def
        target_free_working_area_def call_def Let_def)
  note fr = extends_by_allocs_words[OF ex]
  show "fst (nrf52_ll_flash_write tgt offset buffer bytes lg) =
        Returned ERROR_TARGET_RESOURCE_NOT_AVAILABLE"
    unfolding eq by simp
  show "word_writes (snd (nrf52_ll_flash_write tgt offset buffer bytes lg)) = word_writes lg"
    unfolding eq using fr(1) by simp
  show "streamed (snd (nrf52_ll_flash_write tgt offset buffer bytes lg)) = streamed lg"
    unfolding eq using fr(2) by simp
  show "map fst (drop (length lg) (snd (nrf52_ll_flash_write tgt offset buffer bytes lg))) =
        [Alloc_working_area ?n, ?wb,
         Alloc_working_area 8192, Alloc_working_area 4096, Alloc_working_area 2048,
         Alloc_working_area 1024, Alloc_working_area 512,
         Free_working_area (rval ?r) ?n]"
    unfolding eq using ev by (simp add: d)
qed

lemma word_chunks_16:
  "word_chunks 0 (replicate 16 7) (unat (16 :: u32) div 4) =
      [(0, replicate 4 7), (4, replicate 4 7), (8, replicate 4 7), (12, replicate 4 7)]"
proof -
  have n: "unat (16 :: u32) div 4 = Suc (Suc (Suc (Suc 0)))" by simp
  show ?thesis unfolding n by (simp del: replicate.simps)
qed

lemma no_fifo_area_accepts_words: "accepts_words no_fifo_area"
  by (simp add: accepts_words_def no_fifo_area_def bit_defs)

text \<open>
  C4.  The claim holds for the first working area and fails for the second.
  \<open>no_working_area\<close> refuses every working area and accepts word writes: the
  bulk write of 16 bytes returns \<open>ERROR_OK\<close>, the bytes having gone out as four
  words on the slow path.  \<open>no_fifo_area\<close> differs only in that it has room for
  the 32 bytes of the loader program: there the shrink loop asks for 8192,
  4096, 2048, 1024 and 512 bytes in vain, and the same bulk write returns
  \<open>ERROR_TARGET_RESOURCE_NOT_AVAILABLE\<close> to its caller without writing a word,
  although the slow path, run on this target, writes the four words and
  returns \<open>ERROR_OK\<close>.
\<close>

theorem ll_flash_write_buffer_area_failure_is_error:
  "fst (nrf52_ll_flash_write no_working_area 0 (replicate 16 7) 16 []) = Returned ERROR_OK
   \<and> word_writes (snd (nrf52_ll_flash_write no_working_area 0 (replicate 16 7) 16 [])) =
        [(0, replicate 4 7), (4, replicate 4 7), (8, replicate 4 7), (12, replicate 4 7)]
   \<and> fst (nrf52_ll_flash_write no_fifo_area 0 (replicate 16 7) 16 []) =
        Returned ERROR_TARGET_RESOURCE_NOT_AVAILABLE
   \<and> map fst (snd (nrf52_ll_flash_write no_fifo_area 0 (replicate 16 7) 16 [])) =
        [Alloc_working_area 32,
         Write_buffer 0x20000000 32 nrf52_flash_write_code,
         Alloc_working_area 8192, Alloc_working_area 4096, Alloc_working_area 2048,
         Alloc_working_area 1024, Alloc_working_area 512,
         Free_working_area 0x20000000 32]
   \<and> word_writes (snd (nrf52_ll_flash_write no_fifo_area 0 (replicate 16 7) 16 [])) = []
   \<and> streamed (snd (nrf52_ll_flash_write no_fifo_area 0 (replicate 16 7) 16 [])) = []
   \<and> fst (slow_write no_fifo_area 0 (replicate 16 7) 16 []) = Returned ERROR_OK
   \<and> word_writes (snd (slow_write no_fifo_area 0 (replicate 16 7) 16 [])) =
        [(0, replicate 4 7), (4, replicate 4 7), (8, replicate 4 7), (12, replicate 4 7)]"
proof -
  have a1: "rcode (no_working_area [] (Alloc_working_area (length nrf52_flash_write_code)))
      \<noteq> ERROR_OK"
    by (simp add: no_working_area_def code_defs)
  have a2: "accepts_words no_working_area"
    by (simp add: accepts_words_def no_working_area_def bit_defs)
  have a3: "(16 :: u32) mod 4 = 0" by simp
  have n: "length nrf52_flash_write_code = 32"
    by (simp add: nrf52_flash_write_code_def)
  have b1: "rcode (no_fifo_area [] (Alloc_working_area (length nrf52_flash_write_code)))
      = ERROR_OK"
    "rval (no_fifo_area [] (Alloc_working_area (length nrf52_flash_write_code))) = 0x20000000"
    by (simp_all add: no_fifo_area_def n)
  have b2: "rcode (no_fifo_area
        ([] @ [(Alloc_working_area (length nrf52_flash_write_code), ERROR_OK)])
        (Write_buffer
           (rval (no_fifo_area [] (Alloc_working_area (length nrf52_flash_write_code))))
           (length nrf52_flash_write_code) nrf52_flash_write_code)) = ERROR_OK"
    by (simp add: no_fifo_area_def)
  have b3: "refuses_fifo no_fifo_area"
    by (simp add: refuses_fifo_def no_fifo_area_def code_defs)
  note ta = ll_flash_write_alloc_failures
    [of no_working_area "[]" 16 0 "replicate 16 7", THEN conjunct1, rule_format]
  note tb = ll_flash_write_alloc_failures
    [of no_fifo_area "[]" 16 0 "replicate 16 7", THEN conjunct2, rule_format]
  have ra: "fst (nrf52_ll_flash_write no_working_area 0 (replicate 16 7) 16 []) =
      Returned ERROR_OK"
    "word_writes (snd (nrf52_ll_flash_write no_working_area 0 (replicate 16 7) 16 [])) =
        [(0, replicate 4 7), (4, replicate 4 7), (8, replicate 4 7), (12, replicate 4 7)]"
    using ta a1 a2 a3 word_chunks_16 by simp_all
  have rb: "fst (nrf52_ll_flash_write no_fifo_area 0 (replicate 16 7) 16 []) =
        Returned ERROR_TARGET_RESOURCE_NOT_AVAILABLE"
    "word_writes (snd (nrf52_ll_flash_write no_fifo_area 0 (replicate 16 7) 16 [])) = []"
    "streamed (snd (nrf52_ll_flash_write no_fifo_area 0 (replicate 16 7) 16 [])) = []"
    "map fst (drop (length ([] :: log))
       (snd (nrf52_ll_flash_write no_fifo_area 0 (replicate 16 7) 16 []))) =
        [Alloc_working_area (length nrf52_flash_write_code),
         Write_buffer (rval (no_fifo_area [] (Alloc_working_area (length nrf52_flash_write_code))))
            (length nrf52_flash_write_code) nrf52_flash_write_code,
         Alloc_working_area 8192, Alloc_working_area 4096, Alloc_working_area 2048,
         Alloc_working_area 1024, Alloc_working_area 512,
         Free_working_area (rval (no_fifo_area [] (Alloc_working_area (length nrf52_flash_write_code))))
            (length nrf52_flash_write_code)]"
    using tb b1(1) b2 b3 a3 by simp_all
  have rq: "map fst (snd (nrf52_ll_flash_write no_fifo_area 0 (replicate 16 7) 16 [])) =
        [Alloc_working_area 32,
         Write_buffer 0x20000000 32 nrf52_flash_write_code,
         Alloc_working_area 8192, Alloc_working_area 4096, Alloc_working_area 2048,
         Alloc_working_area 1024, Alloc_working_area 512,
         Free_working_area 0x20000000 32]"
    using rb(4) by (simp add: n no_fifo_area_def)
  have sl: "fst (slow_write no_fifo_area 0 (replicate 16 7) 16 []) = Returned ERROR_OK \<and>
         word_writes (snd (slow_write no_fifo_area 0 (replicate 16 7) 16 [])) =
           word_writes [] @ word_chunks 0 (replicate 16 7) (unat (16 :: u32) div 4) \<and>
         streamed (snd (slow_write no_fifo_area 0 (replicate 16 7) 16 [])) = streamed []"
    using no_fifo_area_accepts_words a3 by (intro slow_write_accepts) simp_all
  have rs: "fst (slow_write no_fifo_area 0 (replicate 16 7) 16 []) = Returned ERROR_OK"
    "word_writes (snd (slow_write no_fifo_area 0 (replicate 16 7) 16 [])) =
        [(0, replicate 4 7), (4, replicate 4 7), (8, replicate 4 7), (12, replicate 4 7)]"
    using sl word_chunks_16 by simp_all
  from ra rb(1,2,3) rq rs show ?thesis by blast
qed

subsection \<open>Erasing one page\<close>

lemma nvmc_event_count:
  "nvmc_event e \<Longrightarrow> a \<noteq> NRF52_NVMC_CONFIG_ADDR \<Longrightarrow> fst e \<noteq> Write_u32 a v"
  by (auto simp: nvmc_event_def)

lemma bulk_event_count: "bulk_event e \<Longrightarrow> fst e \<noteq> Write_u32 a v"
  by (auto simp: bulk_event_def)

lemma set_mode_count:
  assumes "a \<noteq> NRF52_NVMC_CONFIG_ADDR"
  shows "count_req (Write_u32 a v) (snd (set_mode m tgt lg)) = count_req (Write_u32 a v) lg"
  by (rule extends_by_count[OF set_mode_extends]) (rule nvmc_event_count[OF _ assms])

lemma set_mode_mem_reads: "mem_reads (snd (set_mode m tgt lg)) = mem_reads lg"
  by (rule extends_by_mem_reads[OF set_mode_extends]) simp

lemma set_mode_word_writes: "word_writes (snd (set_mode m tgt lg)) = word_writes lg"
  by (rule extends_by_word_writes[OF set_mode_extends]) simp

lemma set_mode_streamed: "streamed (snd (set_mode m tgt lg)) = streamed lg"
  by (rule extends_by_streamed[OF set_mode_extends]) simp

text \<open>
  A generic erase that returns \<open>ERROR_OK\<close> has written its trigger exactly
  once, and no other register but CONFIG.
\<close>

lemma generic_erase_count:
  assumes "nrf52_nvmc_generic_erase tgt reg v lg = (ERROR_OK, lg')"
    and "a \<noteq> NRF52_NVMC_CONFIG_ADDR"
  shows "count_req (Write_u32 a w) lg' =
           count_req (Write_u32 a w) lg + (if a = reg \<and> w = v then 1 else 0)"
proof -
  obtain r1 lg1 where en: "set_mode NRF52_NVMC_CONFIG_EEN tgt lg = (r1, lg1)"
    by (cases "set_mode NRF52_NVMC_CONFIG_EEN tgt lg")
  have r1: "r1 = ERROR_OK"
    using assms(1) en
    by (auto simp: nrf52_nvmc_generic_erase_def transitions_set_mode split: if_splits)
  let ?lg2 = "lg1 @ [(Write_u32 reg v, rcode (tgt lg1 (Write_u32 reg v)))]"
  have eq: "lg' = snd (set_mode NRF52_NVMC_CONFIG_REN tgt ?lg2)"
    using assms(1) en r1
    by (simp add: nrf52_nvmc_generic_erase_def transitions_set_mode target_write_u32_def
        call_def Let_def)
  have "count_req (Write_u32 a w) lg1 = count_req (Write_u32 a w) lg"
    using set_mode_count[OF assms(2), of w NRF52_NVMC_CONFIG_EEN tgt lg] en by simp
  then show ?thesis
    unfolding eq by (auto simp: set_mode_count[OF assms(2)])
qed

lemma generic_erase_frames:
  "mem_reads (snd (nrf52_nvmc_generic_erase tgt reg v lg)) = mem_reads lg"
  "word_writes (snd (nrf52_nvmc_generic_erase tgt reg v lg)) = word_writes lg"
  "streamed (snd (nrf52_nvmc_generic_erase tgt reg v lg)) = streamed lg"
  "extends_by (\<lambda>_. True) lg (snd (nrf52_nvmc_generic_erase tgt reg v lg))"
proof -
  obtain r1 lg1 where en: "set_mode NRF52_NVMC_CONFIG_EEN tgt lg = (r1, lg1)"
    by (cases "set_mode NRF52_NVMC_CONFIG_EEN tgt lg")
  have m1: "mem_reads lg1 = mem_reads lg" "word_writes lg1 = word_writes lg"
    "streamed lg1 = streamed lg" "extends_by (\<lambda>_. True) lg lg1"
    using set_mode_mem_reads[of NRF52_NVMC_CONFIG_EEN tgt lg]
      set_mode_word_writes[of NRF52_NVMC_CONFIG_EEN tgt lg]
      set_mode_streamed[of NRF52_NVMC_CONFIG_EEN tgt lg]
      extends_by_mono[OF set_mode_extends[of lg NRF52_NVMC_CONFIG_EEN tgt], of "\<lambda>_. True"] en
    by simp_all
  let ?lg2 = "lg1 @ [(Write_u32 reg v, rcode (tgt lg1 (Write_u32 reg v)))]"
  have g: "snd (nrf52_nvmc_generic_erase tgt reg v lg) =
      (if r1 \<noteq> ERROR_OK then lg1 else snd (set_mode NRF52_NVMC_CONFIG_REN tgt ?lg2))"
    using en
    by (simp add: nrf52_nvmc_generic_erase_def transitions_set_mode target_write_u32_def
        call_def Let_def)
  have e2: "extends_by (\<lambda>_. True) lg ?lg2"
    using m1(4) by (auto simp: extends_by_def)
  have e3: "extends_by (\<lambda>_. True) lg (snd (set_mode NRF52_NVMC_CONFIG_REN tgt ?lg2))"
    by (rule extends_by_trans[OF e2 extends_by_mono[OF set_mode_extends]]) simp
  show "mem_reads (snd (nrf52_nvmc_generic_erase tgt reg v lg)) = mem_reads lg"
    unfolding g using m1 by (simp add: set_mode_mem_reads)
  show "word_writes (snd (nrf52_nvmc_generic_erase tgt reg v lg)) = word_writes lg"
    unfolding g using m1 by (simp add: set_mode_word_writes)
  show "streamed (snd (nrf52_nvmc_generic_erase tgt reg v lg)) = streamed lg"
    unfolding g using m1 by (simp add: set_mode_streamed)
  show "extends_by (\<lambda>_. True) lg (snd (nrf52_nvmc_generic_erase tgt reg v lg))"
    unfolding g using m1(4) e3 by simp
qed

lemma erase_page_frames:
  "mem_reads (snd (snd (nrf52_erase_page tgt bank i lg))) = mem_reads lg"
  "word_writes (snd (snd (nrf52_erase_page tgt bank i lg))) = word_writes lg"
  "streamed (snd (snd (nrf52_erase_page tgt bank i lg))) = streamed lg"
  "extends_by (\<lambda>_. True) lg (snd (snd (nrf52_erase_page tgt bank i lg)))"
  by (simp_all add: nrf52_erase_page_def Let_def generic_erase_frames split: prod.splits)
     (metis generic_erase_frames snd_conv)+

text \<open>
  A page erase of the code bank that returns \<open>ERROR_OK\<close> has written the
  sector's offset to the page-erase trigger exactly once, and has marked the
  sector erased.
\<close>

lemma erase_page_ok:
  assumes "nrf52_erase_page tgt bank i lg = (ERROR_OK, bank1, lg1)"
    and "bank_base bank \<noteq> NRF52_UICR_BASE_ADDR"
  shows "bank1 = set_erased bank i"
    and "count_req (Write_u32 NRF52_NVMC_ERASEPAGE_ADDR p) lg1 =
           count_req (Write_u32 NRF52_NVMC_ERASEPAGE_ADDR p) lg +
           (if p = sec_offset (sectors bank ! i) then 1 else 0)"
proof -
  have np: "is_protected (sectors bank ! i) \<noteq> 1"
    using assms(1) by (auto simp: nrf52_erase_page_def Let_def code_defs split: if_splits)
  have g: "nrf52_nvmc_generic_erase tgt NRF52_NVMC_ERASEPAGE_ADDR
      (sec_offset (sectors bank ! i)) lg = (ERROR_OK, lg1)"
    using assms np
    by (auto simp: nrf52_erase_page_def Let_def split: if_splits prod.splits)
  show "bank1 = set_erased bank i"
    using assms np
    by (auto simp: nrf52_erase_page_def Let_def split: if_splits prod.splits)
  have "NRF52_NVMC_ERASEPAGE_ADDR \<noteq> NRF52_NVMC_CONFIG_ADDR"
    by (simp add: addr_defs)
  from generic_erase_count[OF g this, of p]
  show "count_req (Write_u32 NRF52_NVMC_ERASEPAGE_ADDR p) lg1 =
           count_req (Write_u32 NRF52_NVMC_ERASEPAGE_ADDR p) lg +
           (if p = sec_offset (sectors bank ! i) then 1 else 0)"
    by simp
qed

lemma coop_erase_page:
  assumes "cooperative tgt" and "is_protected (sectors bank ! i) \<noteq> 1"
  shows "nrf52_erase_page tgt bank i lg =
     (ERROR_OK, set_erased bank i,
      lg @ [(Read_u32 NRF52_NVMC_READY_ADDR, ERROR_OK),
            (Write_u32 NRF52_NVMC_CONFIG_ADDR NRF52_NVMC_CONFIG_EEN, ERROR_OK),
            (if bank_base bank = NRF52_UICR_BASE_ADDR
             then Write_u32 NRF52_NVMC_ERASEUICR_ADDR 1
             else Write_u32 NRF52_NVMC_ERASEPAGE_ADDR (sec_offset (sectors bank ! i)),
             ERROR_OK),
            (Read_u32 NRF52_NVMC_READY_ADDR, ERROR_OK),
            (Write_u32 NRF52_NVMC_CONFIG_ADDR NRF52_NVMC_CONFIG_REN, ERROR_OK)])"
  using assms(2)
  by (simp add: nrf52_erase_page_def Let_def coop_generic_erase[OF assms(1)])

subsection \<open>The streamed path on a cooperative target\<close>


lemma ll_flash_write_frames:
  "mem_reads (snd (nrf52_ll_flash_write tgt offset buffer bytes lg)) = mem_reads lg"
  "count_req (Write_u32 a v) (snd (nrf52_ll_flash_write tgt offset buffer bytes lg)) =
     count_req (Write_u32 a v) lg"
  "nvmc_mode (snd (nrf52_ll_flash_write tgt offset buffer bytes lg)) = nvmc_mode lg"
  "extends_by (\<lambda>_. True) lg (snd (nrf52_ll_flash_write tgt offset buffer bytes lg))"
proof -
  note b = ll_flash_write_bulk[of lg tgt offset buffer bytes]
  show "mem_reads (snd (nrf52_ll_flash_write tgt offset buffer bytes lg)) = mem_reads lg"
    by (rule extends_by_mem_reads[OF b]) simp
  show "count_req (Write_u32 a v) (snd (nrf52_ll_flash_write tgt offset buffer bytes lg)) =
     count_req (Write_u32 a v) lg"
    by (rule extends_by_count[OF b]) (rule bulk_event_count)
  show "nvmc_mode (snd (nrf52_ll_flash_write tgt offset buffer bytes lg)) = nvmc_mode lg"
    by (rule extends_by_bulk_mode[OF b])
  show "extends_by (\<lambda>_. True) lg (snd (nrf52_ll_flash_write tgt offset buffer bytes lg))"
    by (rule extends_by_mono[OF b]) simp
qed


subsection \<open>The config region driver\<close>

text \<open>
  A request that passes the bounds check reads the whole region from the
  target before anything else, whatever the target answers later on.
\<close>

lemma uicr_write_reads_first:
  assumes "\<not> offset + count > code_page_size chip"
  shows "\<exists>d. snd (snd (nrf52_uicr_flash_write tgt chip bank buffer offset count lg)) =
     lg @ (Read_memory NRF52_UICR_BASE_ADDR 1 (unat (code_page_size chip)),
           rcode (tgt lg (Read_memory NRF52_UICR_BASE_ADDR 1 (unat (code_page_size chip))))) # d"
proof -
  let ?ps = "code_page_size chip"
  let ?rq = "Read_memory NRF52_UICR_BASE_ADDR 1 (unat ?ps)"
  let ?lg1 = "lg @ [(?rq, rcode (tgt lg ?rq))]"
  let ?R = "nrf52_uicr_flash_write tgt chip bank buffer offset count lg"
  have "extends_by (\<lambda>_. True) ?lg1 (snd (snd ?R))"
  proof (cases "rcode (tgt lg ?rq) \<noteq> ERROR_OK \<or> sectors bank = []")
    case True
    then show ?thesis using assms
      by (auto simp: nrf52_uicr_flash_write_def target_read_memory_def call_def Let_def
          split: list.splits)
  next
    case False
    then obtain s ss where ss: "sectors bank = s # ss" by (cases "sectors bank") auto
    obtain r2 bank1 lg2 where er:
      "(if is_erased s \<noteq> 1 then nrf52_erase_page tgt bank 0 ?lg1 else (ERROR_OK, bank, ?lg1))
        = (r2, bank1, lg2)"
      by (cases "if is_erased s \<noteq> 1 then nrf52_erase_page tgt bank 0 ?lg1
                 else (ERROR_OK, bank, ?lg1)") auto
    have e2: "extends_by (\<lambda>_. True) ?lg1 lg2"
      using er erase_page_frames(4)[of ?lg1 tgt bank 0] by (auto split: if_splits)
    obtain r3 lg3 where we: "nrf52_nvmc_write_enable tgt lg2 = (r3, lg3)"
      by (cases "nrf52_nvmc_write_enable tgt lg2")
    have "extends_by (\<lambda>_. True) lg2 lg3"
      using we extends_by_mono[OF set_mode_extends[of lg2 NRF52_NVMC_CONFIG_WEN tgt],
          of "\<lambda>_. True"]
      by (simp add: transitions_set_mode)
    with e2 have e3: "extends_by (\<lambda>_. True) ?lg1 lg3" by (rule extends_by_trans)
    let ?uicr = "take (unat offset)
          (fit (unat ?ps) (rdata (tgt lg ?rq))) @ take (unat count) buffer @
          drop (unat offset + unat count) (fit (unat ?ps) (rdata (tgt lg ?rq)))"
    obtain r4 lg4 where ll:
      "nrf52_ll_flash_write tgt NRF52_UICR_BASE_ADDR ?uicr ?ps lg3 = (r4, lg4)"
      by (cases "nrf52_ll_flash_write tgt NRF52_UICR_BASE_ADDR ?uicr ?ps lg3")
    have "extends_by (\<lambda>_. True) lg3 lg4"
      using ll ll_flash_write_frames(4)[of lg3 tgt NRF52_UICR_BASE_ADDR ?uicr ?ps] by simp
    with e3 have e4: "extends_by (\<lambda>_. True) ?lg1 lg4" by (rule extends_by_trans)
    have "extends_by (\<lambda>_. True) lg4 (snd (nrf52_nvmc_read_only tgt lg4))"
      using extends_by_mono[OF set_mode_extends[of lg4 NRF52_NVMC_CONFIG_REN tgt],
          of "\<lambda>_. True"]
      by (simp add: transitions_set_mode)
    with e4 have e5: "extends_by (\<lambda>_. True) ?lg1 (snd (nrf52_nvmc_read_only tgt lg4))"
      by (rule extends_by_trans)
    show ?thesis
      using assms False ss er we ll e2 e3 e4 e5
      by (auto simp: nrf52_uicr_flash_write_def target_read_memory_def call_def Let_def
          split: if_splits prod.splits status.splits)
  qed
  then show ?thesis by (auto simp: extends_by_def)
qed

text \<open>
  C10.  The bounds check of the config-region write adds \<open>offset\<close> and \<open>count\<close>
  as 32-bit words.  For \<open>offset = 16\<close> and \<open>count = 2^32 - 8\<close> the true sum is
  \<open>2^32 + 8\<close>, the 32-bit sum is \<open>8\<close>, the check does not reject the request
  with a page size of 4096, and the driver goes on to read the region from
  the target instead of returning \<open>ERROR_FAIL\<close> with the log untouched.
\<close>

theorem uicr_bounds_check_wraps:
  "2 ^ 32 \<le> unat (16 :: u32) + unat (4294967288 :: u32)
   \<and> (16 :: u32) + 4294967288 = 8
   \<and> \<not> (16 :: u32) + 4294967288 > code_page_size (chip\<lparr>code_page_size := 4096\<rparr>)
   \<and> (\<exists>d. snd (snd (nrf52_uicr_flash_write tgt (chip\<lparr>code_page_size := 4096\<rparr>) bank buffer
               16 4294967288 lg)) =
        lg @ (Read_memory NRF52_UICR_BASE_ADDR 1 4096,
              rcode (tgt lg (Read_memory NRF52_UICR_BASE_ADDR 1 4096))) # d)
   \<and> nrf52_uicr_flash_write tgt (chip\<lparr>code_page_size := 4096\<rparr>) bank buffer 16 4294967288 lg
       \<noteq> (Returned ERROR_FAIL, bank, lg)"
proof -
  let ?chip = "chip\<lparr>code_page_size := 4096\<rparr>"
  have c: "\<not> (16 :: u32) + 4294967288 > code_page_size ?chip" by simp
  from uicr_write_reads_first[OF c, of tgt bank buffer lg]
  obtain d where d: "snd (snd (nrf52_uicr_flash_write tgt ?chip bank buffer 16 4294967288 lg)) =
        lg @ (Read_memory NRF52_UICR_BASE_ADDR 1 4096,
              rcode (tgt lg (Read_memory NRF52_UICR_BASE_ADDR 1 4096))) # d"
    by auto
  then have "snd (snd (nrf52_uicr_flash_write tgt ?chip bank buffer 16 4294967288 lg)) \<noteq> lg"
    by simp
  then have "nrf52_uicr_flash_write tgt ?chip bank buffer 16 4294967288 lg
       \<noteq> (Returned ERROR_FAIL, bank, lg)"
    by auto
  with c d show ?thesis by simp
qed

lemma uicr_bank_facts:
  "sectors uicr_bank_4096 =
     [\<lparr>sec_offset = 0, sec_size = 4096, is_erased = - 1, is_protected = - 1\<rparr>]"
  "bank_base uicr_bank_4096 = NRF52_UICR_BASE_ADDR"
  "code_page_size chip_2x4096 = 4096"
  by (simp_all add: uicr_bank_4096_def chip_2x4096_def)

lemma erased_chip_cooperative: "cooperative erased_chip"
  by (auto simp: cooperative_def erased_chip_def addr_defs bit_defs split: request.splits)

text \<open>
  C9.  A config-region write of one byte at offset \<open>0xFFFFFFFF\<close> is out of
  bounds (the region is 4096 bytes), but the 32-bit sum \<open>offset + count\<close> is 0
  and passes the check: the driver reads the region from the target and
  erases the sector, and only then reaches the copy of the caller's byte to
  \<open>uicr[0xFFFFFFFF]\<close>, outside the array.  The request is not rejected before
  any read or erase.
\<close>

theorem uicr_write_out_of_bounds_not_rejected:
  "unat (code_page_size chip_2x4096) < unat (0xFFFFFFFF :: u32) + unat (1 :: u32)
   \<and> fst (nrf52_uicr_flash_write erased_chip chip_2x4096 uicr_bank_4096 [0xAB] 0xFFFFFFFF 1 [])
       = Aborted
   \<and> mem_reads (snd (snd (nrf52_uicr_flash_write erased_chip chip_2x4096 uicr_bank_4096
        [0xAB] 0xFFFFFFFF 1 []))) = [(NRF52_UICR_BASE_ADDR, 4096)]
   \<and> count_req (Write_u32 NRF52_NVMC_ERASEUICR_ADDR 1)
        (snd (snd (nrf52_uicr_flash_write erased_chip chip_2x4096 uicr_bank_4096
           [0xAB] 0xFFFFFFFF 1 []))) = 1"
proof -
  have np: "is_protected (sectors uicr_bank_4096 ! 0) \<noteq> 1"
    by (simp add: uicr_bank_facts)
  have "nrf52_uicr_flash_write erased_chip chip_2x4096 uicr_bank_4096 [0xAB] 0xFFFFFFFF 1 [] =
    (Aborted, set_erased uicr_bank_4096 0,
     [(Read_memory NRF52_UICR_BASE_ADDR 1 4096, ERROR_OK),
      (Read_u32 NRF52_NVMC_READY_ADDR, ERROR_OK),
      (Write_u32 NRF52_NVMC_CONFIG_ADDR NRF52_NVMC_CONFIG_EEN, ERROR_OK),
      (Write_u32 NRF52_NVMC_ERASEUICR_ADDR 1, ERROR_OK),
      (Read_u32 NRF52_NVMC_READY_ADDR, ERROR_OK),
      (Write_u32 NRF52_NVMC_CONFIG_ADDR NRF52_NVMC_CONFIG_REN, ERROR_OK)])"
    using erased_chip_cooperative
    by (simp add: nrf52_uicr_flash_write_def target_read_memory_def call_def Let_def
        uicr_bank_facts coop_erase_page[OF erased_chip_cooperative np] cooperative_def)
  then show ?thesis
    by (simp add: uicr_bank_facts addr_defs)
qed






subsection \<open>The erase loop of the page writer\<close>

declare erase_pages.simps [simp del]

lemma word_mod_dvd:
  fixes q ps :: u32
  shows "q mod ps = 0 \<longleftrightarrow> unat ps dvd unat q"
proof -
  have "unat (q mod ps) = unat q mod unat ps" by (simp add: unat_mod)
  then have "q mod ps = 0 \<longleftrightarrow> unat q mod unat ps = 0"
    by (metis unat_0_iff)
  then show ?thesis by (simp add: dvd_eq_mod_eq_0)
qed

lemma dvd_next_multiple:
  fixes p a b :: nat
  assumes "p dvd a" and "p dvd b" and "a < b"
  shows "a + p \<le> b"
proof -
  from assms(1,2) obtain j k where jk: "a = p * j" "b = p * k" by (auto simp: dvd_def)
  with assms(3) have "j < k" by (cases "p = 0") auto
  then have "Suc j \<le> k" by simp
  then have "p * Suc j \<le> p * k" by (rule mult_le_mono2)
  then show ?thesis using jk by simp
qed

text \<open>The pages of a range are its first page and the pages of the rest.\<close>

lemma page_in_range_step:
  assumes al: "pages_aligned chip offset end'" and lt: "offset < end'"
  shows "page_in_range chip offset end' q \<longleftrightarrow>
           q = offset \<or> page_in_range chip (offset + code_page_size chip) end' q"
proof -
  let ?ps = "code_page_size chip"
  from al have a: "?ps \<noteq> 0" "offset mod ?ps = 0" "end' mod ?ps = 0"
    by (simp_all add: pages_aligned_def)
  note nx = aligned_next_page[OF a lt]
  have p: "0 < unat ?ps" using a(1) by (simp add: unat_gt_0)
  have od: "unat ?ps dvd unat offset" using a(2) by (simp add: word_mod_dvd)
  show ?thesis
  proof
    assume r: "page_in_range chip offset end' q"
    then have q: "unat offset \<le> unat q" "unat q < unat end'" "unat ?ps dvd unat q"
      by (simp_all add: page_in_range_def word_le_nat_alt word_less_nat_alt word_mod_dvd)
    show "q = offset \<or> page_in_range chip (offset + ?ps) end' q"
    proof (cases "q = offset")
      case False
      then have "unat q \<noteq> unat offset" by (simp add: word_unat_eq_iff)
      with q(1) have "unat offset < unat q" by simp
      from dvd_next_multiple[OF od q(3) this] have "unat (offset + ?ps) \<le> unat q"
        by (simp add: nx(1))
      then show ?thesis using r
        by (simp add: page_in_range_def word_le_nat_alt)
    qed simp
  next
    assume "q = offset \<or> page_in_range chip (offset + ?ps) end' q"
    then show "page_in_range chip offset end' q"
    proof
      assume "q = offset"
      then show ?thesis using lt a(2) by (simp add: page_in_range_def)
    next
      assume r: "page_in_range chip (offset + ?ps) end' q"
      then have "unat offset + unat ?ps \<le> unat q"
        by (simp add: page_in_range_def word_le_nat_alt nx(1))
      then have "unat offset \<le> unat q" by simp
      then show ?thesis using r by (simp add: page_in_range_def word_le_nat_alt)
    qed
  qed
qed

lemma page_in_range_empty: "\<not> offset < end' \<Longrightarrow> \<not> page_in_range chip offset end' q"
  by (auto simp: page_in_range_def)

text \<open>An aligned offset is the offset of the sector that holds it.\<close>

lemma aligned_sector_offset:
  fixes ps offset :: u32
  assumes "ps \<noteq> 0" and "offset mod ps = 0"
  shows "of_nat (unat offset div unat ps) * ps = offset"
proof -
  have d: "unat ps dvd unat offset" using assms(2) by (simp add: word_mod_dvd)
  have "of_nat (unat offset div unat ps) * ps =
      (of_nat (unat offset div unat ps) * of_nat (unat ps) :: u32)"
    by simp
  also have "\<dots> = of_nat (unat offset div unat ps * unat ps)"
    by (simp only: of_nat_mult)
  also have "unat offset div unat ps * unat ps = unat offset"
    using d by simp
  finally show ?thesis by simp
qed

lemma later_page_other_sector:
  assumes al: "pages_aligned chip offset end'" and lt: "offset < end'"
    and r: "page_in_range chip (offset + code_page_size chip) end' q"
  shows "unat q div unat (code_page_size chip) \<noteq> unat offset div unat (code_page_size chip)"
proof -
  let ?ps = "code_page_size chip"
  from al have a: "?ps \<noteq> 0" "offset mod ?ps = 0" "end' mod ?ps = 0"
    by (simp_all add: pages_aligned_def)
  note nx = aligned_next_page[OF a lt]
  have p: "0 < unat ?ps" using a(1) by (simp add: unat_gt_0)
  have "unat ?ps dvd unat offset" using a(2) by (simp add: word_mod_dvd)
  then obtain j where j: "unat offset = unat ?ps * j" by (auto simp: dvd_def)
  from r have "unat offset + unat ?ps \<le> unat q"
    by (simp add: page_in_range_def word_le_nat_alt nx(1))
  then have "unat ?ps * Suc j \<le> unat q" using j by simp
  then have "Suc j \<le> unat q div unat ?ps"
    using p by (metis div_le_mono nonzero_mult_div_cancel_left less_numeral_extra(3))
  moreover have "unat offset div unat ?ps = j" using j p by simp
  ultimately show ?thesis by simp
qed

lemma set_erased_facts:
  "bank_base (set_erased bank i) = bank_base bank"
  "num_sectors (set_erased bank i) = num_sectors bank"
  "length (sectors (set_erased bank i)) = length (sectors bank)"
  "j < length (sectors bank) \<Longrightarrow>
     sec_offset (sectors (set_erased bank i) ! j) = sec_offset (sectors bank ! j)"
  "j < length (sectors bank) \<Longrightarrow>
     is_protected (sectors (set_erased bank i) ! j) = is_protected (sectors bank ! j)"
  "i < length (sectors bank) \<Longrightarrow> is_erased (sectors (set_erased bank i) ! i) = 1"
  "j \<noteq> i \<Longrightarrow> sectors (set_erased bank i) ! j = sectors bank ! j"
  "set_erased (set_erased bank i) i = set_erased bank i"
proof -
  show "bank_base (set_erased bank i) = bank_base bank"
    "num_sectors (set_erased bank i) = num_sectors bank"
    "length (sectors (set_erased bank i)) = length (sectors bank)"
    "i < length (sectors bank) \<Longrightarrow> is_erased (sectors (set_erased bank i) ! i) = 1"
    "j \<noteq> i \<Longrightarrow> sectors (set_erased bank i) ! j = sectors bank ! j"
    by (simp_all add: set_erased_def)
  show "j < length (sectors bank) \<Longrightarrow>
     sec_offset (sectors (set_erased bank i) ! j) = sec_offset (sectors bank ! j)"
    by (cases "j = i") (simp_all add: set_erased_def)
  show "j < length (sectors bank) \<Longrightarrow>
     is_protected (sectors (set_erased bank i) ! j) = is_protected (sectors bank ! j)"
    by (cases "j = i") (simp_all add: set_erased_def)
  show "set_erased (set_erased bank i) i = set_erased bank i"
    by (cases "i < length (sectors bank)") (simp_all add: set_erased_def list_update_beyond)
qed

lemma set_erased_layout: "code_layout chip bank \<Longrightarrow> code_layout chip (set_erased bank i)"
  by (simp add: code_layout_def set_erased_facts)

lemma set_erased_keeps:
  "j < length (sectors bank) \<Longrightarrow> is_erased (sectors bank ! j) = 1 \<Longrightarrow>
     is_erased (sectors (set_erased bank i) ! j) = 1"
  by (cases "j = i") (simp_all add: set_erased_facts)

text \<open>
  One turn of the loop that ends well: the page has a sector, the sector is
  not protected, it is erased unless it is marked erased, and the loop goes
  on with the sector marked and the next page.
\<close>

lemma erase_pages_turn:
  assumes lay: "code_layout chip bank"
    and al: "pages_aligned chip offset end'" and lt: "offset < end'"
    and res: "erase_pages tgt chip bank offset end' lg = (Returned ERROR_OK, bank1, lg1)"
  shows "\<exists>lgA.
      unat offset div unat (code_page_size chip) < length (sectors bank) \<and>
      (\<forall>q. count_req (Write_u32 NRF52_NVMC_ERASEPAGE_ADDR q) lgA =
            count_req (Write_u32 NRF52_NVMC_ERASEPAGE_ADDR q) lg +
            (if q = offset \<and>
                is_erased (sectors bank ! (unat offset div unat (code_page_size chip))) \<noteq> 1
             then 1 else 0)) \<and>
      mem_reads lgA = mem_reads lg \<and> word_writes lgA = word_writes lg \<and>
      streamed lgA = streamed lg \<and>
      erase_pages tgt chip (set_erased bank (unat offset div unat (code_page_size chip)))
        (offset + code_page_size chip) end' lgA = (Returned ERROR_OK, bank1, lg1)"
proof -
  let ?ps = "code_page_size chip"
  let ?i = "unat offset div unat ?ps"
  from al have a: "?ps \<noteq> 0" "offset mod ?ps = 0" by (simp_all add: pages_aligned_def)
  have base: "bank_base bank \<noteq> NRF52_UICR_BASE_ADDR"
    using lay by (simp add: code_layout_def addr_defs)
  note fs = find_sector_code_layout[OF lay a(1), of offset]
  have found: "nrf52_find_sector_by_address chip bank offset = Some ?i"
    and inb: "?i < length (sectors bank)"
  proof -
    have ne: "nrf52_find_sector_by_address chip bank offset \<noteq> None"
      using res al lt
      by (subst (asm) erase_pages.simps) (auto simp: code_defs split: option.splits)
    then have b: "unat offset < length (sectors bank) * unat ?ps"
      using fs by (auto split: if_splits)
    then show "nrf52_find_sector_by_address chip bank offset = Some ?i"
      using fs by simp
    have p: "0 < unat ?ps" using a(1) by (simp add: unat_gt_0)
    show "?i < length (sectors bank)"
      using b p by (simp add: less_mult_imp_div_less)
  qed
  have so: "sec_offset (sectors bank ! ?i) = offset"
    using lay inb aligned_sector_offset[OF a] by (simp add: code_layout_def)
  have np: "is_protected (sectors bank ! ?i) \<noteq> 1"
    using res al lt found
    by (subst (asm) erase_pages.simps) (auto simp: code_defs split: if_splits)
  show ?thesis
  proof (cases "is_erased (sectors bank ! ?i) = 1")
    case True
    then have "erase_pages tgt chip (set_erased bank ?i) (offset + ?ps) end' lg =
        (Returned ERROR_OK, bank1, lg1)"
      using res al lt found np by (subst (asm) erase_pages.simps) simp
    then show ?thesis using True inb by (intro exI[of _ lg]) simp
  next
    case False
    obtain r bankA lgA where ep: "nrf52_erase_page tgt bank ?i lg = (r, bankA, lgA)"
      by (cases "nrf52_erase_page tgt bank ?i lg") auto
    have r: "r = ERROR_OK"
      using res al lt found np False ep
      by (subst (asm) erase_pages.simps) (auto split: if_splits)
    note ok = erase_page_ok[OF ep[unfolded r] base]
    have rec: "erase_pages tgt chip (set_erased bank ?i) (offset + ?ps) end' lgA =
        (Returned ERROR_OK, bank1, lg1)"
      using res al lt found np False ep r ok(1)
      by (subst (asm) erase_pages.simps) (simp add: set_erased_facts)
    have fr: "mem_reads lgA = mem_reads lg" "word_writes lgA = word_writes lg"
      "streamed lgA = streamed lg"
      using erase_page_frames(1,2,3)[of tgt bank ?i lg] ep by simp_all
    show ?thesis
      using False inb ok(2) so rec fr by (intro exI[of _ lgA]) auto
  qed
qed

text \<open>
  The loop as a whole, when it runs to its end: every page of the range has a
  sector; the trigger of a page is written once if the page is in the range
  and its sector was not marked erased, and not at all otherwise; the sectors
  of the range end up marked erased, and no mark is lost.
\<close>

lemma erase_pages_result:
  assumes "code_layout chip bank"
    and "erase_pages tgt chip bank offset end' lg = (Returned ERROR_OK, bank1, lg1)"
  shows "code_layout chip bank1 \<and> length (sectors bank1) = length (sectors bank) \<and>
     (\<forall>q. count_req (Write_u32 NRF52_NVMC_ERASEPAGE_ADDR q) lg1 =
           count_req (Write_u32 NRF52_NVMC_ERASEPAGE_ADDR q) lg +
           (if page_in_range chip offset end' q \<and>
               is_erased (sectors bank ! (unat q div unat (code_page_size chip))) \<noteq> 1
            then 1 else 0)) \<and>
     (\<forall>q. page_in_range chip offset end' q \<longrightarrow>
           unat q div unat (code_page_size chip) < length (sectors bank) \<and>
           is_erased (sectors bank1 ! (unat q div unat (code_page_size chip))) = 1) \<and>
     (\<forall>j<length (sectors bank). is_erased (sectors bank ! j) = 1 \<longrightarrow>
           is_erased (sectors bank1 ! j) = 1) \<and>
     mem_reads lg1 = mem_reads lg \<and> word_writes lg1 = word_writes lg \<and>
     streamed lg1 = streamed lg"
  using assms
proof (induction "unat end' - unat offset" arbitrary: offset bank lg rule: less_induct)
  case less
  let ?ps = "code_page_size chip"
  have al: "pages_aligned chip offset end'"
    using less.prems(2) by (subst (asm) erase_pages.simps) (auto split: if_splits)
  show ?case
  proof (cases "offset < end'")
    case False
    then have "bank1 = bank" "lg1 = lg"
      using less.prems(2) al by (subst (asm) erase_pages.simps, simp)+
    then show ?thesis
      using less.prems(1) False by (simp add: page_in_range_empty)
  next
    case True
    let ?i = "unat offset div unat ?ps"
    from al have a: "?ps \<noteq> 0" "offset mod ?ps = 0" "end' mod ?ps = 0"
      by (simp_all add: pages_aligned_def)
    note nx = aligned_next_page[OF a True]
    have p: "0 < unat ?ps" using a(1) by (simp add: unat_gt_0)
    from erase_pages_turn[OF less.prems(1) al True less.prems(2)]
    obtain lgA where
      inb: "?i < length (sectors bank)" and
      cnt: "\<And>q. count_req (Write_u32 NRF52_NVMC_ERASEPAGE_ADDR q) lgA =
            count_req (Write_u32 NRF52_NVMC_ERASEPAGE_ADDR q) lg +
            (if q = offset \<and> is_erased (sectors bank ! ?i) \<noteq> 1 then 1 else 0)" and
      fr: "mem_reads lgA = mem_reads lg" "word_writes lgA = word_writes lg"
          "streamed lgA = streamed lg" and
      rec: "erase_pages tgt chip (set_erased bank ?i) (offset + ?ps) end' lgA =
            (Returned ERROR_OK, bank1, lg1)"
      by blast
    have dec: "unat end' - unat (offset + ?ps) < unat end' - unat offset"
      using nx p by simp
    note ih = less.hyps[OF dec set_erased_layout[OF less.prems(1)] rec]
    have ih_lay: "code_layout chip bank1" "length (sectors bank1) = length (sectors bank)"
      using ih by (simp_all add: set_erased_facts)
    have ih_cnt: "count_req (Write_u32 NRF52_NVMC_ERASEPAGE_ADDR q) lg1 =
           count_req (Write_u32 NRF52_NVMC_ERASEPAGE_ADDR q) lgA +
           (if page_in_range chip (offset + ?ps) end' q \<and>
               is_erased (sectors (set_erased bank ?i) ! (unat q div unat ?ps)) \<noteq> 1
            then 1 else 0)" for q
      using ih by blast
    have ih_er: "unat q div unat ?ps < length (sectors bank) \<and>
           is_erased (sectors bank1 ! (unat q div unat ?ps)) = 1"
      if "page_in_range chip (offset + ?ps) end' q" for q
      using ih that by (simp add: set_erased_facts)
    have ih_keep: "is_erased (sectors bank1 ! j) = 1"
      if "j < length (sectors bank)" "is_erased (sectors (set_erased bank ?i) ! j) = 1" for j
      using ih that by (simp add: set_erased_facts)
    have ih_fr: "mem_reads lg1 = mem_reads lgA" "word_writes lg1 = word_writes lgA"
      "streamed lg1 = streamed lgA"
      using ih by simp_all
    have notin: "\<not> page_in_range chip (offset + ?ps) end' offset"
      using nx p by (simp add: page_in_range_def word_le_nat_alt)
    have c: "count_req (Write_u32 NRF52_NVMC_ERASEPAGE_ADDR q) lg1 =
           count_req (Write_u32 NRF52_NVMC_ERASEPAGE_ADDR q) lg +
           (if page_in_range chip offset end' q \<and>
               is_erased (sectors bank ! (unat q div unat ?ps)) \<noteq> 1
            then 1 else 0)" for q
    proof (cases "q = offset")
      case True
      then show ?thesis
        using ih_cnt[of q] cnt[of q] notin page_in_range_step[OF al \<open>offset < end'\<close>, of q]
        by simp
    next
      case False
      show ?thesis
      proof (cases "page_in_range chip (offset + ?ps) end' q")
        case True
        from later_page_other_sector[OF al \<open>offset < end'\<close> True]
        have "sectors (set_erased bank ?i) ! (unat q div unat ?ps) =
            sectors bank ! (unat q div unat ?ps)"
          by (simp add: set_erased_facts)
        then show ?thesis
          using ih_cnt[of q] cnt[of q] False True page_in_range_step[OF al \<open>offset < end'\<close>, of q]
          by simp
      next
        case nr: False
        then show ?thesis
          using ih_cnt[of q] cnt[of q] False page_in_range_step[OF al \<open>offset < end'\<close>, of q]
          by simp
      qed
    qed
    have e: "unat q div unat ?ps < length (sectors bank) \<and>
           is_erased (sectors bank1 ! (unat q div unat ?ps)) = 1"
      if "page_in_range chip offset end' q" for q
    proof (cases "q = offset")
      case True
      have "is_erased (sectors bank1 ! ?i) = 1"
        using ih_keep[OF inb] inb by (simp add: set_erased_facts)
      then show ?thesis using True inb by simp
    next
      case False
      then have "page_in_range chip (offset + ?ps) end' q"
        using that page_in_range_step[OF al \<open>offset < end'\<close>, of q] by simp
      then show ?thesis by (rule ih_er)
    qed
    have k: "is_erased (sectors bank1 ! j) = 1"
      if "j < length (sectors bank)" "is_erased (sectors bank ! j) = 1" for j
      using ih_keep[OF that(1)] set_erased_keeps[OF that] by simp
    show ?thesis
      using ih_lay c e k ih_fr fr by simp
  qed
qed

subsection \<open>The page writer\<close>



lemma coop_erase_pages_end:
  assumes "pages_aligned chip end' end'"
  shows "erase_pages tgt chip bank end' end' lg = (Returned ERROR_OK, bank, lg)"
  using assms by (subst erase_pages.simps) simp

lemma chip_2x4096_facts:
  "code_page_size chip_2x4096 = 4096"
  "pages_aligned chip_2x4096 0 8192"
  "pages_aligned chip_2x4096 4096 8192"
  "pages_aligned chip_2x4096 8192 8192"
  by (simp_all add: chip_2x4096_def pages_aligned_def)

lemma code_bank_facts:
  "code_layout chip_2x4096 code_bank_2x4096"
  "length (sectors code_bank_2x4096) = 2"
  "is_protected (sectors code_bank_2x4096 ! 0) \<noteq> 1"
  "is_protected (sectors code_bank_2x4096 ! Suc 0) \<noteq> 1"
  "is_erased (sectors code_bank_2x4096 ! 0) \<noteq> 1"
  "is_erased (sectors code_bank_2x4096 ! Suc 0) \<noteq> 1"
  by (simp_all add: code_layout_def chip_2x4096_def code_bank_2x4096_def code_sector_def
      less_Suc_eq addr_defs)


text \<open>
  What the page writer does when it gets through.  Let the sectors of the
  bank be laid out as the probe of the code region lays them out, and let a
  call of the page writer for \<open>[start, end)\<close> get through its erase loop and
  through the switch to write mode (the writer returns early otherwise), and
  let the bulk write return \<open>rw\<close> and the final switch to read-only mode
  return \<open>rr\<close>.  Then \<open>start\<close> and \<open>end\<close> are page aligned, and:

    \<^item> the call returns \<open>rw\<close> if the bulk write failed and \<open>rr\<close> otherwise, with
      the log that the switch to read-only mode leaves, so that the switch is
      made on both paths, after the bulk write;
    \<^item> every page of the range has a sector; the page-erase trigger of the
      page is written once if the sector was not marked erased and not at all
      if it was; the sector is marked erased afterwards;
    \<^item> the trigger of no other page is written;
    \<^item> the switch to read-only mode begins with a poll of the READY register
      right after the bulk write, and if it returns \<open>ERROR_OK\<close> the controller
      is in read-only mode.

  This counts the writes to the trigger, whatever the target answers to them.
\<close>

lemma write_pages_trigger_writes:
  assumes lay: "code_layout chip bank"
    and er: "erase_pages tgt chip bank start end' lg = (Returned ERROR_OK, bank1, lg1)"
    and we: "nrf52_nvmc_write_enable tgt lg1 = (ERROR_OK, lg2)"
    and ll: "nrf52_ll_flash_write tgt start buffer (end' - start) lg2 = (Returned rw, lg3)"
    and ro: "nrf52_nvmc_read_only tgt lg3 = (rr, lg4)"
  shows "pages_aligned chip start end'
     \<and> nrf52_write_pages tgt chip bank start end' buffer lg =
         (Returned (if rw \<noteq> ERROR_OK then rw else rr), bank1, lg4)
     \<and> (\<forall>q. page_in_range chip start end' q \<longrightarrow>
          (\<exists>i<length (sectors bank).
             nrf52_find_sector_by_address chip bank q = Some i \<and>
             count_req (Write_u32 NRF52_NVMC_ERASEPAGE_ADDR q) lg4 =
               count_req (Write_u32 NRF52_NVMC_ERASEPAGE_ADDR q) lg +
                 (if is_erased (sectors bank ! i) = 1 then 0 else 1) \<and>
             is_erased (sectors bank1 ! i) = 1))
     \<and> (\<forall>q. \<not> page_in_range chip start end' q \<longrightarrow>
          count_req (Write_u32 NRF52_NVMC_ERASEPAGE_ADDR q) lg4 =
            count_req (Write_u32 NRF52_NVMC_ERASEPAGE_ADDR q) lg)
     \<and> (\<exists>d. lg4 = lg3 @ (Read_u32 NRF52_NVMC_READY_ADDR,
                          rcode (tgt lg3 (Read_u32 NRF52_NVMC_READY_ADDR))) # d)
     \<and> (rr = ERROR_OK \<longrightarrow> nvmc_mode lg4 = Some NRF52_NVMC_CONFIG_REN)"
proof -
  let ?ps = "code_page_size chip"
  let ?cnt = "\<lambda>q. count_req (Write_u32 NRF52_NVMC_ERASEPAGE_ADDR q)"
  have al: "pages_aligned chip start end'"
    using er by (subst (asm) erase_pages.simps) (auto split: if_splits)
  then have ps: "?ps \<noteq> 0" by (simp add: pages_aligned_def)
  then have p: "0 < unat ?ps" by (simp add: unat_gt_0)
  note R = erase_pages_result[OF lay er]
  have l2: "lg2 = snd (set_mode NRF52_NVMC_CONFIG_WEN tgt lg1)"
    using we by (simp add: transitions_set_mode)
  have l3: "lg3 = snd (nrf52_ll_flash_write tgt start buffer (end' - start) lg2)"
    using ll by simp
  have l4: "lg4 = snd (set_mode NRF52_NVMC_CONFIG_REN tgt lg3)"
    and r4: "rr = fst (set_mode NRF52_NVMC_CONFIG_REN tgt lg3)"
    using ro by (simp_all add: transitions_set_mode)
  have ne: "NRF52_NVMC_ERASEPAGE_ADDR \<noteq> NRF52_NVMC_CONFIG_ADDR" by (simp add: addr_defs)
  have c4: "?cnt q lg4 = ?cnt q lg1" for q
    by (simp add: l4 l3 l2 set_mode_count[OF ne] ll_flash_write_frames(2))
  have wp: "nrf52_write_pages tgt chip bank start end' buffer lg =
         (Returned (if rw \<noteq> ERROR_OK then rw else rr), bank1, lg4)"
    by (simp add: nrf52_write_pages_def al er we ll ro)
  have inr: "\<exists>i<length (sectors bank).
             nrf52_find_sector_by_address chip bank q = Some i \<and>
             ?cnt q lg4 = ?cnt q lg + (if is_erased (sectors bank ! i) = 1 then 0 else 1) \<and>
             is_erased (sectors bank1 ! i) = 1"
    if q: "page_in_range chip start end' q" for q
  proof -
    let ?i = "unat q div unat ?ps"
    from R q have i: "?i < length (sectors bank)" and e: "is_erased (sectors bank1 ! ?i) = 1"
      by blast+
    from i p have "unat q < length (sectors bank) * unat ?ps"
      by (simp add: div_less_iff_less_mult)
    then have f: "nrf52_find_sector_by_address chip bank q = Some ?i"
      by (simp add: find_sector_code_layout[OF lay ps])
    from R have "?cnt q lg1 = ?cnt q lg +
        (if page_in_range chip start end' q \<and> is_erased (sectors bank ! ?i) \<noteq> 1 then 1 else 0)"
      by blast
    then have "?cnt q lg4 = ?cnt q lg + (if is_erased (sectors bank ! ?i) = 1 then 0 else 1)"
      using q by (simp add: c4)
    with i f e show ?thesis by blast
  qed
  have outr: "?cnt q lg4 = ?cnt q lg" if q: "\<not> page_in_range chip start end' q" for q
  proof -
    from R have "?cnt q lg1 = ?cnt q lg +
        (if page_in_range chip start end' q \<and>
            is_erased (sectors bank ! (unat q div unat ?ps)) \<noteq> 1 then 1 else 0)"
      by blast
    then show ?thesis using q by (simp add: c4)
  qed
  have poll: "\<exists>d. lg4 = lg3 @ (Read_u32 NRF52_NVMC_READY_ADDR,
                          rcode (tgt lg3 (Read_u32 NRF52_NVMC_READY_ADDR))) # d"
    unfolding l4 by (rule set_mode_first_poll)
  have mode: "rr = ERROR_OK \<longrightarrow> nvmc_mode lg4 = Some NRF52_NVMC_CONFIG_REN"
    unfolding l4 r4 by (auto intro: set_mode_ok)
  from al wp inr outr poll mode show ?thesis by blast
qed

text \<open>
  A target that refuses the write to the page-erase trigger and answers
  every other request with \<open>ERROR_OK\<close>, its NVMC ready at every poll:
  \<open>stuck_trigger\<close> is one.  The generic erase on such a target runs its five
  requests and returns \<open>ERROR_OK\<close>, the result of the switch to read-only mode:
  the result of the trigger write is logged and dropped.
\<close>

lemma stuck_trigger_answers:
  "rcode (stuck_trigger lg (Write_u32 NRF52_NVMC_ERASEPAGE_ADDR p)) = ERROR_FAIL"
  "rcode (stuck_trigger lg (Write_u32 NRF52_NVMC_CONFIG_ADDR v)) = ERROR_OK"
  "rcode (stuck_trigger lg (Read_u32 a)) = ERROR_OK"
  "rval (stuck_trigger lg (Read_u32 a)) = NRF52_NVMC_READY"
  "accepts_words stuck_trigger"
  by (simp_all add: stuck_trigger_def accepts_words_def addr_defs bit_defs)

lemma stuck_set_mode:
  "set_mode v stuck_trigger lg =
     (ERROR_OK, lg @ [(Read_u32 NRF52_NVMC_READY_ADDR, ERROR_OK),
                      (Write_u32 NRF52_NVMC_CONFIG_ADDR v, ERROR_OK)])"
  by (simp add: set_mode_def accepts_wait[OF stuck_trigger_answers(5)] target_write_u32_def
      call_def Let_def stuck_trigger_answers(2))

lemma stuck_erase_page:
  assumes "bank_base bank \<noteq> NRF52_UICR_BASE_ADDR" and "is_protected (sectors bank ! i) \<noteq> 1"
  shows "nrf52_erase_page stuck_trigger bank i lg =
     (ERROR_OK, set_erased bank i,
      lg @ page_erase_refused (sec_offset (sectors bank ! i)) ERROR_FAIL)"
  using assms
  by (simp add: nrf52_erase_page_def nrf52_nvmc_generic_erase_def transitions_set_mode
      stuck_set_mode target_write_u32_def call_def Let_def stuck_trigger_answers(1)
      page_erase_refused_def)

lemma stuck_erase_pages_turn:
  assumes lay: "code_layout chip bank"
    and al: "pages_aligned chip offset end'" and lt: "offset < end'"
    and inb: "unat offset div unat (code_page_size chip) < length (sectors bank)"
    and np: "is_protected (sectors bank ! (unat offset div unat (code_page_size chip))) \<noteq> 1"
  shows "erase_pages stuck_trigger chip bank offset end' lg =
     erase_pages stuck_trigger chip
       (set_erased bank (unat offset div unat (code_page_size chip)))
       (offset + code_page_size chip) end'
       (lg @ (if is_erased (sectors bank ! (unat offset div unat (code_page_size chip))) = 1
              then [] else page_erase_refused offset ERROR_FAIL))"
proof -
  let ?ps = "code_page_size chip"
  let ?i = "unat offset div unat ?ps"
  from al have a: "?ps \<noteq> 0" "offset mod ?ps = 0" by (simp_all add: pages_aligned_def)
  have p: "0 < unat ?ps" using a(1) by (simp add: unat_gt_0)
  have base: "bank_base bank \<noteq> NRF52_UICR_BASE_ADDR"
    using lay by (simp add: code_layout_def addr_defs)
  have "unat offset < length (sectors bank) * unat ?ps"
    using inb p by (simp add: div_less_iff_less_mult)
  then have found: "nrf52_find_sector_by_address chip bank offset = Some ?i"
    by (simp add: find_sector_code_layout[OF lay a(1)])
  have so: "sec_offset (sectors bank ! ?i) = offset"
    using lay inb aligned_sector_offset[OF a] by (simp add: code_layout_def)
  show ?thesis
    by (subst erase_pages.simps)
       (simp add: al lt found np stuck_erase_page[OF base np] so set_erased_facts)
qed

lemma stuck_erase_pages_2x4096:
  "erase_pages stuck_trigger chip_2x4096 code_bank_2x4096 0 8192 lg =
     (Returned ERROR_OK, set_erased (set_erased code_bank_2x4096 0) (Suc 0),
      lg @ page_erase_refused 0 ERROR_FAIL @ page_erase_refused 4096 ERROR_FAIL)"
proof -
  let ?bank = "code_bank_2x4096"
  let ?lg1 = "lg @ page_erase_refused 0 ERROR_FAIL"
  note lay = code_bank_facts(1)
  have t1: "erase_pages stuck_trigger chip_2x4096 ?bank 0 8192 lg =
      erase_pages stuck_trigger chip_2x4096 (set_erased ?bank 0) 4096 8192 ?lg1"
    using stuck_erase_pages_turn[OF lay chip_2x4096_facts(2), of lg] code_bank_facts(2,3,5)
    by (simp add: chip_2x4096_facts(1))
  have i1: "unat (4096 :: u32) div unat (code_page_size chip_2x4096) = Suc 0"
    by (simp add: chip_2x4096_facts(1))
  have s1: "sectors (set_erased ?bank 0) ! Suc 0 = sectors ?bank ! Suc 0"
    by (simp add: set_erased_facts)
  have t2: "erase_pages stuck_trigger chip_2x4096 (set_erased ?bank 0) 4096 8192 ?lg1 =
      erase_pages stuck_trigger chip_2x4096 (set_erased (set_erased ?bank 0) (Suc 0)) 8192 8192
        (?lg1 @ page_erase_refused 4096 ERROR_FAIL)"
    using stuck_erase_pages_turn[OF set_erased_layout[OF lay] chip_2x4096_facts(3),
        of 0 ?lg1] code_bank_facts(2,4,6)
    by (simp add: i1 s1 set_erased_facts chip_2x4096_facts(1))
  show ?thesis
    by (simp only: t1 t2 coop_erase_pages_end[OF chip_2x4096_facts(4)] append_assoc)
qed

text \<open>The bulk write on \<open>stuck_trigger\<close> takes the streamed path.\<close>

lemma stuck_ll_flash_write:
  assumes "bytes mod 4 = 0"
  shows "fst (nrf52_ll_flash_write stuck_trigger offset buffer bytes lg) = Returned ERROR_OK"
    and "streamed (snd (nrf52_ll_flash_write stuck_trigger offset buffer bytes lg)) =
           streamed lg @ [take (unat bytes) buffer]"
    and "page_erases (snd (nrf52_ll_flash_write stuck_trigger offset buffer bytes lg)) =
           page_erases lg"
  using assms
  by (simp_all add: nrf52_ll_flash_write_def alloc_source.simps target_write_buffer_def
      target_free_working_area_def call_def Let_def stuck_trigger_def)

text \<open>
  C1.  The claim fails where the target refuses a page erase.  On
  \<open>stuck_trigger\<close>, with two pages of 4096 bytes whose sectors are not marked
  erased, the page writer runs the erase of page 0 and of page 4096; both
  writes to the page-erase trigger return \<open>ERROR_FAIL\<close>, so that no page has
  been erased.  The page writer all the same marks both sectors erased, hands
  the 8192 bytes to the loader and returns \<open>ERROR_OK\<close>, with the controller in
  read-only mode.
\<close>

theorem write_pages_marks_erased_after_refused_erase:
  "is_erased (sectors code_bank_2x4096 ! 0) \<noteq> 1
   \<and> is_erased (sectors code_bank_2x4096 ! 1) \<noteq> 1
   \<and> fst (nrf52_write_pages stuck_trigger chip_2x4096 code_bank_2x4096 0 8192
        (replicate 8192 0xAB) []) = Returned ERROR_OK
   \<and> page_erases (snd (snd (nrf52_write_pages stuck_trigger chip_2x4096 code_bank_2x4096
        0 8192 (replicate 8192 0xAB) []))) = [(0, ERROR_FAIL), (4096, ERROR_FAIL)]
   \<and> is_erased (sectors (fst (snd (nrf52_write_pages stuck_trigger chip_2x4096
        code_bank_2x4096 0 8192 (replicate 8192 0xAB) []))) ! 0) = 1
   \<and> is_erased (sectors (fst (snd (nrf52_write_pages stuck_trigger chip_2x4096
        code_bank_2x4096 0 8192 (replicate 8192 0xAB) []))) ! 1) = 1
   \<and> streamed (snd (snd (nrf52_write_pages stuck_trigger chip_2x4096 code_bank_2x4096
        0 8192 (replicate 8192 0xAB) []))) = [replicate 8192 0xAB]
   \<and> nvmc_mode (snd (snd (nrf52_write_pages stuck_trigger chip_2x4096 code_bank_2x4096
        0 8192 (replicate 8192 0xAB) []))) = Some NRF52_NVMC_CONFIG_REN"
proof -
  let ?buf = "replicate 8192 (0xAB :: u8)"
  let ?bank1 = "set_erased (set_erased code_bank_2x4096 0) (Suc 0)"
  let ?lg1 = "page_erase_refused 0 ERROR_FAIL @ page_erase_refused 4096 ERROR_FAIL"
  let ?lg2 = "page_erase_refused 0 ERROR_FAIL @ page_erase_refused 4096 ERROR_FAIL @
                 [(Read_u32 NRF52_NVMC_READY_ADDR, ERROR_OK),
                  (Write_u32 NRF52_NVMC_CONFIG_ADDR NRF52_NVMC_CONFIG_WEN, ERROR_OK)]"
  have er: "erase_pages stuck_trigger chip_2x4096 code_bank_2x4096 0 8192 [] =
      (Returned ERROR_OK, ?bank1, ?lg1)"
    using stuck_erase_pages_2x4096[of "[]"] by simp
  have we: "nrf52_nvmc_write_enable stuck_trigger ?lg1 = (ERROR_OK, ?lg2)"
    by (simp add: transitions_set_mode stuck_set_mode)
  have w4: "(8192 :: u32) mod 4 = 0" by simp
  obtain lg3 where ll:
    "nrf52_ll_flash_write stuck_trigger 0 ?buf 8192 ?lg2 = (Returned ERROR_OK, lg3)"
    using stuck_ll_flash_write(1)[OF w4, of 0 ?buf ?lg2]
    by (cases "nrf52_ll_flash_write stuck_trigger 0 ?buf 8192 ?lg2") auto
  let ?lg4 = "lg3 @ [(Read_u32 NRF52_NVMC_READY_ADDR, ERROR_OK),
                     (Write_u32 NRF52_NVMC_CONFIG_ADDR NRF52_NVMC_CONFIG_REN, ERROR_OK)]"
  have ro: "nrf52_nvmc_read_only stuck_trigger lg3 = (ERROR_OK, ?lg4)"
    by (simp add: transitions_set_mode stuck_set_mode)
  have R: "nrf52_write_pages stuck_trigger chip_2x4096 code_bank_2x4096 0 8192 ?buf [] =
      (Returned ERROR_OK, ?bank1, ?lg4)"
    by (simp add: nrf52_write_pages_def chip_2x4096_facts(2) er we ll ro)
  have l3: "lg3 = snd (nrf52_ll_flash_write stuck_trigger 0 ?buf 8192 ?lg2)"
    by (simp only: ll snd_conv)
  have s3: "streamed lg3 = [?buf]"
    unfolding l3 stuck_ll_flash_write(2)[OF w4]
    by (simp add: page_erase_refused_def)
  have e3: "page_erases lg3 = [(0, ERROR_FAIL), (4096, ERROR_FAIL)]"
    unfolding l3 stuck_ll_flash_write(3)[OF w4]
    by (simp add: page_erase_refused_def addr_defs)
  have b: "is_erased (sectors ?bank1 ! 0) = 1" "is_erased (sectors ?bank1 ! 1) = 1"
    using code_bank_facts(2) by (simp_all add: set_erased_facts)
  have i: "is_erased (sectors code_bank_2x4096 ! 0) \<noteq> 1"
    "is_erased (sectors code_bank_2x4096 ! 1) \<noteq> 1"
    using code_bank_facts(5,6) by simp_all
  have m: "nvmc_mode ?lg4 = Some NRF52_NVMC_CONFIG_REN"
    by (simp add: nvmc_mode_append)
  show ?thesis
    unfolding R using i b s3 e3 m by (simp add: addr_defs)
qed

subsection \<open>The code region driver\<close>


text \<open>
  The three pieces of \<open>buffer_to_flash\<close> never leave a part of the array
  unfilled: their lengths add up to the size of the array modulo \<open>2^32\<close>, so
  that the sum is the size of the array, or more when the arithmetic has
  wrapped around.
\<close>

lemma unat_add_le_sum:
  fixes a b :: u32
  shows "unat (a + b) \<le> unat a + unat b"
  by (simp add: unat_word_ariths(1))

lemma code_write_pieces_cover:
  fixes offset count ps first_page last_page :: u32
  shows "unat ((last_page - first_page) * ps) \<le>
     unat (offset - first_page * ps) + unat count + unat (last_page * ps - (offset + count))"
proof -
  let ?pre = "offset - first_page * ps"
  let ?post = "last_page * ps - (offset + count)"
  have "(last_page - first_page) * ps = ?pre + count + ?post"
    by (simp add: algebra_simps)
  then have "unat ((last_page - first_page) * ps) = unat (?pre + count + ?post)" by simp
  also have "\<dots> \<le> unat (?pre + count) + unat ?post" by (rule unat_add_le_sum)
  also have "\<dots> \<le> unat ?pre + unat count + unat ?post"
    using unat_add_le_sum[of ?pre count] by simp
  finally show ?thesis .
qed





end
